theory Spec2Isabelle
  imports Complex_Main
begin

section \<open>V-trace targets: the data\<close>

text \<open>
  The embedding of \<^verbatim>\<open>parl/algorithms/paddle/impala/vtrace.py\<close>, given twice. In this
  first embedding tensor elements are real numbers, so the arithmetic is exact; it carries
  the statements about which formula the code computes. The second embedding, further
  down, follows the float32 arithmetic of the tensor library, with rounding, overflow,
  infinities and NaN, its broadcasting and the exceptions it raises; it carries the
  statements whose truth depends on any of these.

  A tensor of rank at least one is its shape together with its slices along axis 0, each
  slice flattened to a vector; for a \<open>[T, B]\<close> tensor these are its \<open>T\<close> rows of length
  \<open>B\<close>. \<^verbatim>\<open>bootstrap_value\<close> has one axis less and is a single slice.
\<close>

type_synonym vec = "real list"

record tensor =
  shape :: "nat list"
  rows :: "vec list"

record slice =
  sshape :: "nat list"
  elems :: vec

record inputs =
  behaviour_actions_log_probs :: tensor
  target_actions_log_probs :: tensor
  discounts :: tensor
  rewards :: tensor
  values_in :: tensor
  bootstrap_value :: slice

text \<open>
  A clip threshold is a Python float; \<open>None\<close> (no clipping) is the \<open>None\<close> of
  \<open>threshold option\<close>. The float \<open>+inf\<close> is a threshold a caller can pass, so the
  type has it.
\<close>

datatype threshold = Finite real | PlusInfinity

text \<open>An argument of a call is either left out, so that the default applies, or given.\<close>

datatype 'a arg = Omitted | Given 'a

record VTraceReturns =
  vs :: "vec list"
  pg_advantages :: "vec list"

text \<open>
  A failure is an assertion of the function itself, or an exception raised inside the
  tensor library.
\<close>

datatype error = AssertionError | LibraryError

section \<open>The tensor operations used\<close>

text \<open>
  The elementwise operators of the tensor library, on operands of equal shape, where they
  act pointwise. On operands of different shapes the library broadcasts or raises; in this
  first embedding every statement about values is made for inputs of matching shapes
  (\<open>valid_input\<close>), and the second embedding has the broadcasting and the exceptions.
\<close>

definition vadd :: "vec \<Rightarrow> vec \<Rightarrow> vec" where
  "vadd xs ys = map2 (+) xs ys"

definition vsub :: "vec \<Rightarrow> vec \<Rightarrow> vec" where
  "vsub xs ys = map2 (-) xs ys"

definition vmul :: "vec \<Rightarrow> vec \<Rightarrow> vec" where
  "vmul xs ys = map2 (*) xs ys"

definition madd :: "vec list \<Rightarrow> vec list \<Rightarrow> vec list" where
  "madd xs ys = map2 vadd xs ys"

definition msub :: "vec list \<Rightarrow> vec list \<Rightarrow> vec list" where
  "msub xs ys = map2 vsub xs ys"

definition mmul :: "vec list \<Rightarrow> vec list \<Rightarrow> vec list" where
  "mmul xs ys = map2 vmul xs ys"

text \<open>\<^verbatim>\<open>paddle.exp\<close>.\<close>

definition mexp :: "vec list \<Rightarrow> vec list" where
  "mexp xs = map (map exp) xs"

text \<open>\<^verbatim>\<open>paddle.clip(x, max=m)\<close>: the elementwise minimum with \<open>m\<close>.\<close>

fun clip_max :: "real \<Rightarrow> threshold \<Rightarrow> real" where
  "clip_max x (Finite m) = min x m"
| "clip_max x PlusInfinity = x"

definition clip :: "vec list \<Rightarrow> threshold \<Rightarrow> vec list" where
  "clip xs m = map (map (\<lambda>x. clip_max x m)) xs"

text \<open>\<^verbatim>\<open>paddle.zeros_like\<close>.\<close>

definition zeros_like :: "vec \<Rightarrow> vec" where
  "zeros_like v = map (\<lambda>_. 0) v"

section \<open>from_importance_weights\<close>

text \<open>The local variables of the function body, in the order of the source.\<close>

definition log_rhos :: "inputs \<Rightarrow> vec list" where
  "log_rhos I = msub (rows (target_actions_log_probs I)) (rows (behaviour_actions_log_probs I))"

definition rhos :: "inputs \<Rightarrow> vec list" where
  "rhos I = mexp (log_rhos I)"

definition clipped_rhos :: "inputs \<Rightarrow> threshold option \<Rightarrow> vec list" where
  "clipped_rhos I clip_rho_threshold =
     (case clip_rho_threshold of
        Some m \<Rightarrow> clip (rhos I) m
      | None \<Rightarrow> rhos I)"

definition cs :: "inputs \<Rightarrow> vec list" where
  "cs I = clip (rhos I) (Finite 1)"

text \<open>\<^verbatim>\<open>concat([values[1:], unsqueeze(bootstrap_value, 0)], axis=0)\<close>.\<close>

definition shift_bootstrap :: "vec list \<Rightarrow> vec \<Rightarrow> vec list" where
  "shift_bootstrap xs b = tl xs @ [b]"

definition values_t_plus_1 :: "inputs \<Rightarrow> vec list" where
  "values_t_plus_1 I = shift_bootstrap (rows (values_in I)) (elems (bootstrap_value I))"

definition deltas :: "inputs \<Rightarrow> threshold option \<Rightarrow> vec list" where
  "deltas I clip_rho_threshold =
     mmul (clipped_rhos I clip_rho_threshold)
       (msub (madd (rows (rewards I)) (mmul (rows (discounts I)) (values_t_plus_1 I)))
          (rows (values_in I)))"

text \<open>
  The loop \<^verbatim>\<open>for t in range(discounts.shape[0] - 1, -1, -1)\<close>: \<open>scan_loop n\<close> runs
  the iterations \<open>t = n - 1, \<dots>, 0\<close> on the state \<open>(acc, result)\<close>. On a valid input
  \<open>deltas\<close>, \<open>discounts\<close> and \<open>cs\<close> all have \<open>discounts.shape[0]\<close> rows, so every
  row the loop reads exists.
\<close>

fun scan_loop :: "nat \<Rightarrow> vec list \<Rightarrow> vec list \<Rightarrow> vec list \<Rightarrow> vec \<times> vec list \<Rightarrow> vec \<times> vec list" where
  "scan_loop 0 ds dis c (acc, result) = (acc, result)"
| "scan_loop (Suc t) ds dis c (acc, result) =
     (let acc' = vadd (ds ! t) (vmul (vmul (dis ! t) (c ! t)) acc)
      in scan_loop t ds dis c (acc', result @ [acc']))"

definition vs_minus_v_xs :: "inputs \<Rightarrow> threshold option \<Rightarrow> vec list" where
  "vs_minus_v_xs I clip_rho_threshold =
     (let acc = zeros_like (elems (bootstrap_value I));
          (acc', result) = scan_loop (length (rows (discounts I)))
             (deltas I clip_rho_threshold) (rows (discounts I)) (cs I) (acc, [])
      in rev result)"

definition vs_out :: "inputs \<Rightarrow> threshold option \<Rightarrow> vec list" where
  "vs_out I clip_rho_threshold = madd (vs_minus_v_xs I clip_rho_threshold) (rows (values_in I))"

definition vs_t_plus_1 :: "inputs \<Rightarrow> threshold option \<Rightarrow> vec list" where
  "vs_t_plus_1 I clip_rho_threshold =
     shift_bootstrap (vs_out I clip_rho_threshold) (elems (bootstrap_value I))"

definition clipped_pg_rhos :: "inputs \<Rightarrow> threshold option \<Rightarrow> vec list" where
  "clipped_pg_rhos I clip_pg_rho_threshold =
     (case clip_pg_rho_threshold of
        Some m \<Rightarrow> clip (rhos I) m
      | None \<Rightarrow> rhos I)"

definition pg_advantages_out :: "inputs \<Rightarrow> threshold option \<Rightarrow> threshold option \<Rightarrow> vec list" where
  "pg_advantages_out I clip_rho_threshold clip_pg_rho_threshold =
     mmul (clipped_pg_rhos I clip_pg_rho_threshold)
       (msub (madd (rows (rewards I)) (mmul (rows (discounts I)) (vs_t_plus_1 I clip_rho_threshold)))
          (rows (values_in I)))"

text \<open>The five assertions at the entry of the function, on the ranks only.\<close>

definition rank :: "inputs \<Rightarrow> nat" where
  "rank I = length (shape (behaviour_actions_log_probs I))"

definition ranks_ok :: "inputs \<Rightarrow> bool" where
  "ranks_ok I \<longleftrightarrow>
     length (shape (target_actions_log_probs I)) = rank I \<and>
     length (shape (values_in I)) = rank I \<and>
     int (length (sshape (bootstrap_value I))) = int (rank I) - 1 \<and>
     length (shape (discounts I)) = rank I \<and>
     length (shape (rewards I)) = rank I"

definition from_importance_weights ::
  "inputs \<Rightarrow> threshold option \<Rightarrow> threshold option \<Rightarrow> error + VTraceReturns" where
  "from_importance_weights I clip_rho_threshold clip_pg_rho_threshold =
     (if \<not> ranks_ok I then Inl AssertionError
      else Inr \<lparr> vs = vs_out I clip_rho_threshold,
                 pg_advantages = pg_advantages_out I clip_rho_threshold clip_pg_rho_threshold \<rparr>)"

text \<open>
  The signature gives both thresholds the default \<^verbatim>\<open>1.0\<close>; a call binds a threshold
  to its default when the caller leaves the argument out.
\<close>

definition default_clip_rho_threshold :: "threshold option" where
  "default_clip_rho_threshold = Some (Finite 1)"

definition default_clip_pg_rho_threshold :: "threshold option" where
  "default_clip_pg_rho_threshold = Some (Finite 1)"

fun bind_default :: "'a \<Rightarrow> 'a arg \<Rightarrow> 'a" where
  "bind_default d Omitted = d"
| "bind_default d (Given x) = x"

definition call_from_importance_weights ::
  "inputs \<Rightarrow> threshold option arg \<Rightarrow> threshold option arg \<Rightarrow> error + VTraceReturns" where
  "call_from_importance_weights I clip_rho_threshold clip_pg_rho_threshold =
     from_importance_weights I
       (bind_default default_clip_rho_threshold clip_rho_threshold)
       (bind_default default_clip_pg_rho_threshold clip_pg_rho_threshold)"

section \<open>Valid inputs\<close>

definition has_shape :: "nat \<Rightarrow> nat \<Rightarrow> tensor \<Rightarrow> bool" where
  "has_shape T B x \<longleftrightarrow>
     shape x = [T, B] \<and> length (rows x) = T \<and> list_all (\<lambda>r. length r = B) (rows x)"

definition time_steps :: "inputs \<Rightarrow> nat" where
  "time_steps I = length (rows (discounts I))"

definition batch_size :: "inputs \<Rightarrow> nat" where
  "batch_size I = length (elems (bootstrap_value I))"

definition valid_input :: "inputs \<Rightarrow> bool" where
  "valid_input I \<longleftrightarrow>
     1 \<le> time_steps I \<and> 1 \<le> batch_size I \<and>
     has_shape (time_steps I) (batch_size I) (behaviour_actions_log_probs I) \<and>
     has_shape (time_steps I) (batch_size I) (target_actions_log_probs I) \<and>
     has_shape (time_steps I) (batch_size I) (discounts I) \<and>
     has_shape (time_steps I) (batch_size I) (rewards I) \<and>
     has_shape (time_steps I) (batch_size I) (values_in I) \<and>
     sshape (bootstrap_value I) = [batch_size I]"

section \<open>The specification's formulas\<close>

text \<open>
  The quantities of the specification, entry by entry, written from its words and not from
  the code: the importance ratio, its clipping from above, the sequence shifted forward
  one step with the bootstrap value at position \<open>T - 1\<close>, the temporal-difference
  residual, the clipped residual and the backward recurrence
  \<open>acc\<^sub>t = deltas[t] + discounts[t] * cs[t] * acc\<^sub>t\<^sub>+\<^sub>1\<close> with \<open>acc\<^sub>T = 0\<close>.
\<close>

definition rho_spec :: "inputs \<Rightarrow> nat \<Rightarrow> nat \<Rightarrow> real" where
  "rho_spec I t b =
     exp (rows (target_actions_log_probs I) ! t ! b - rows (behaviour_actions_log_probs I) ! t ! b)"

definition clipped_spec :: "threshold option \<Rightarrow> real \<Rightarrow> real" where
  "clipped_spec thr x = (case thr of None \<Rightarrow> x | Some m \<Rightarrow> clip_max x m)"

definition next_spec :: "inputs \<Rightarrow> vec list \<Rightarrow> nat \<Rightarrow> nat \<Rightarrow> real" where
  "next_spec I xs t b =
     (if t + 1 < time_steps I then xs ! (t + 1) ! b else elems (bootstrap_value I) ! b)"

definition td_spec :: "inputs \<Rightarrow> nat \<Rightarrow> nat \<Rightarrow> real" where
  "td_spec I t b =
     rows (rewards I) ! t ! b
       + rows (discounts I) ! t ! b * next_spec I (rows (values_in I)) t b
       - rows (values_in I) ! t ! b"

definition delta_spec :: "inputs \<Rightarrow> threshold option \<Rightarrow> nat \<Rightarrow> nat \<Rightarrow> real" where
  "delta_spec I thr t b = clipped_spec thr (rho_spec I t b) * td_spec I t b"

function acc_spec :: "inputs \<Rightarrow> threshold option \<Rightarrow> nat \<Rightarrow> nat \<Rightarrow> real" where
  "acc_spec I thr t b =
     (if time_steps I \<le> t then 0
      else delta_spec I thr t b
             + rows (discounts I) ! t ! b * min (rho_spec I t b) 1 * acc_spec I thr (t + 1) b)"
  by pat_completeness auto
termination
  by (relation "measure (\<lambda>(I, thr, t, b). time_steps I - t)") auto

declare acc_spec.simps [simp del]

text \<open>A \<open>T\<close> by \<open>B\<close> table given by its entries.\<close>

definition tab :: "nat \<Rightarrow> nat \<Rightarrow> (nat \<Rightarrow> nat \<Rightarrow> real) \<Rightarrow> vec list" where
  "tab T B f = map (\<lambda>t. map (f t) [0..<B]) [0..<T]"

section \<open>Concrete trajectories\<close>

text \<open>
  Two steps, two lanes. The behaviour policy gave the first action log-probability \<open>-1\<close>
  and the target policy \<open>0\<close>, so the ratio at step 0 is \<open>exp 1\<close>; step 1 is on-policy.
  Lane 0 has residual \<open>1\<close> at step 0 and \<open>-10\<close> at step 1; lane 1 has residual \<open>0\<close>
  throughout.
\<close>

definition two_steps :: inputs where
  "two_steps =
     \<lparr> behaviour_actions_log_probs = \<lparr> shape = [2, 2], rows = [[-1, -1], [0, 0]] \<rparr>,
       target_actions_log_probs = \<lparr> shape = [2, 2], rows = [[0, 0], [0, 0]] \<rparr>,
       discounts = \<lparr> shape = [2, 2], rows = [[1, 1], [0, 0]] \<rparr>,
       rewards = \<lparr> shape = [2, 2], rows = [[1, 0], [-10, 0]] \<rparr>,
       values_in = \<lparr> shape = [2, 2], rows = [[0, 0], [0, 0]] \<rparr>,
       bootstrap_value = \<lparr> sshape = [2], elems = [0, 0] \<rparr> \<rparr>"

section \<open>Single-precision numbers\<close>

text \<open>
  The second embedding. The tensors of this function are float32 tensors (IEEE 754
  binary32), and the tensor library computes every elementwise operation in that format,
  rounding to nearest with ties to even. A value is a finite real, plus or minus infinity,
  or NaN. The two signed zeros are the one value \<open>Fin 0\<close> and all NaNs are the one value
  \<open>NaN\<close>: the function divides nowhere and tests no sign, so no result depends on either
  distinction.
\<close>

datatype f32 = Fin real | PInf | NInf | NaN

text \<open>
  \<open>round32 x\<close> is the float32 nearest to the real \<open>x\<close>. With
  \<open>e = max \<lfloor>log\<^sub>2 |x|\<rfloor> (-126)\<close> the float32 values around \<open>x\<close> are the multiples of
  \<open>2\<^sup>e\<^sup>-\<^sup>2\<^sup>3\<close> (below \<open>2\<^sup>-\<^sup>1\<^sup>2\<^sup>6\<close> these are the subnormal numbers); \<open>x\<close> is rounded to the
  nearest multiple, a tie to the even one. The largest finite float32 is
  \<open>2\<^sup>1\<^sup>2\<^sup>8 - 2\<^sup>1\<^sup>0\<^sup>4\<close>; a magnitude of at least \<open>2\<^sup>1\<^sup>2\<^sup>8 - 2\<^sup>1\<^sup>0\<^sup>3\<close>, half a step above it,
  rounds to infinity.
\<close>

definition expo :: "real \<Rightarrow> int" where
  "expo x = max \<lfloor>log 2 \<bar>x\<bar>\<rfloor> (- 126)"

definition ulp :: "real \<Rightarrow> real" where
  "ulp x = 2 powr of_int (expo x - 23)"

definition rne :: "real \<Rightarrow> int" where
  "rne y = (let n = \<lfloor>y\<rfloor>; d = y - of_int n
            in if d < 1 / 2 then n else if 1 / 2 < d then n + 1 else if even n then n else n + 1)"

definition quant :: "real \<Rightarrow> real" where
  "quant x = of_int (rne (x / ulp x)) * ulp x"

definition overflow_at :: real where
  "overflow_at = 2 ^ 128 - 2 ^ 103"

definition round32 :: "real \<Rightarrow> f32" where
  "round32 x =
     (if x = 0 then Fin 0
      else if overflow_at \<le> x then PInf
      else if x \<le> - overflow_at then NInf
      else Fin (quant x))"

text \<open>
  The arithmetic operations: the exact result, rounded; on the special values as IEEE 754
  has them, so that \<open>inf - inf\<close> and \<open>0 * inf\<close> are NaN and NaN propagates. The
  exponential is taken as correctly rounded; the library's may differ from that in the last
  place, and the statements below rely only on \<open>exp 0 = 1\<close>, on \<open>exp 1\<close> being finite and
  at least \<open>2\<close> after rounding, and on \<open>exp 100\<close> overflowing.
\<close>

fun fneg :: "f32 \<Rightarrow> f32" where
  "fneg (Fin x) = Fin (- x)"
| "fneg PInf = NInf"
| "fneg NInf = PInf"
| "fneg NaN = NaN"

fun fadd :: "f32 \<Rightarrow> f32 \<Rightarrow> f32" where
  "fadd (Fin a) (Fin b) = round32 (a + b)"
| "fadd NaN y = NaN"
| "fadd x NaN = NaN"
| "fadd PInf NInf = NaN"
| "fadd NInf PInf = NaN"
| "fadd PInf y = PInf"
| "fadd x PInf = PInf"
| "fadd NInf y = NInf"
| "fadd x NInf = NInf"

definition fsub :: "f32 \<Rightarrow> f32 \<Rightarrow> f32" where
  "fsub x y = fadd x (fneg y)"

fun inf_times :: "f32 \<Rightarrow> f32 \<Rightarrow> f32" where
  "inf_times i (Fin b) = (if b = 0 then NaN else if 0 < b then i else fneg i)"
| "inf_times i PInf = i"
| "inf_times i NInf = fneg i"
| "inf_times i NaN = NaN"

fun fmul :: "f32 \<Rightarrow> f32 \<Rightarrow> f32" where
  "fmul (Fin a) (Fin b) = round32 (a * b)"
| "fmul NaN y = NaN"
| "fmul x NaN = NaN"
| "fmul PInf y = inf_times PInf y"
| "fmul NInf y = inf_times NInf y"
| "fmul x PInf = inf_times PInf x"
| "fmul x NInf = inf_times NInf x"

fun fexp :: "f32 \<Rightarrow> f32" where
  "fexp (Fin x) = round32 (exp x)"
| "fexp PInf = PInf"
| "fexp NInf = Fin 0"
| "fexp NaN = NaN"

text \<open>
  The comparisons; each is false when an operand is NaN.
\<close>

fun flt :: "f32 \<Rightarrow> f32 \<Rightarrow> bool" where
  "flt (Fin a) (Fin b) = (a < b)"
| "flt NaN y = False"
| "flt x NaN = False"
| "flt x NInf = False"
| "flt PInf y = False"
| "flt NInf y = True"
| "flt x PInf = True"

definition fle :: "f32 \<Rightarrow> f32 \<Rightarrow> bool" where
  "fle x y \<longleftrightarrow> flt x y \<or> (x = y \<and> x \<noteq> NaN)"

text \<open>
  \<^verbatim>\<open>paddle.clip(x, max=m)\<close> clips to the interval from the lowest finite float32 (the
  library's default for the omitted \<^verbatim>\<open>min\<close>) to \<open>m\<close>, computing
  \<^verbatim>\<open>x < min ? min : (x > max ? max : x)\<close> for every element: a NaN stays, and minus
  infinity becomes the lowest finite float32.
\<close>

definition lowest32 :: f32 where
  "lowest32 = Fin (- (2 ^ 128 - 2 ^ 104))"

definition clip_elem :: "f32 \<Rightarrow> f32 \<Rightarrow> f32" where
  "clip_elem m x = (if flt x lowest32 then lowest32 else if flt m x then m else x)"

section \<open>Float32 tensors and the library operations\<close>

text \<open>
  Tensors, inputs and the result as in the first embedding, with float32 elements. A clip
  threshold is a float32 value, the Python float as the library's clip converts it
  (\<open>PInf\<close> is the float \<^verbatim>\<open>+inf\<close>), and \<open>None\<close> is the \<open>None\<close> of \<open>f32 option\<close>.
\<close>

type_synonym fvec = "f32 list"

record tensor32 =
  shape32 :: "nat list"
  rows32 :: "fvec list"

record slice32 =
  sshape32 :: "nat list"
  elems32 :: fvec

record inputs32 =
  behaviour_actions_log_probs32 :: tensor32
  target_actions_log_probs32 :: tensor32
  discounts32 :: tensor32
  rewards32 :: tensor32
  values32 :: tensor32
  bootstrap_value32 :: slice32

record VTraceReturns32 =
  vs32 :: "fvec list"
  pg_advantages32 :: "fvec list"

text \<open>
  An intermediate tensor is kept as its slices along axis 0 and the number of elements of
  one slice.
\<close>

record mat32 =
  ncols :: nat
  mrows :: "fvec list"

definition mat_of :: "tensor32 \<Rightarrow> mat32" where
  "mat_of x = \<lparr> ncols = prod_list (tl (shape32 x)), mrows = rows32 x \<rparr>"

text \<open>
  Every library call can raise; \<open>then_do\<close> passes the first failure on.
\<close>

definition then_do :: "error + 'a \<Rightarrow> ('a \<Rightarrow> error + 'b) \<Rightarrow> error + 'b" where
  "then_do r f = (case r of Inl e \<Rightarrow> Inl e | Inr x \<Rightarrow> f x)"

text \<open>
  Broadcasting, as the library does it for the elementwise binary operators: two extents
  are compatible when they are equal or one of them is \<open>1\<close>, the result has the larger
  one, and the operand of extent \<open>1\<close> is repeated; incompatible extents raise.
  \<open>bop1\<close> is an operator applied to two slices, \<open>bop\<close> to two tensors.
\<close>

definition bdim :: "nat \<Rightarrow> nat \<Rightarrow> error + nat" where
  "bdim m n = (if m = n then Inr m else if m = 1 then Inr n else if n = 1 then Inr m
               else Inl LibraryError)"

definition pick :: "'a list \<Rightarrow> nat \<Rightarrow> 'a" where
  "pick xs i = (if length xs = 1 then xs ! 0 else xs ! i)"

definition bvec :: "(f32 \<Rightarrow> f32 \<Rightarrow> f32) \<Rightarrow> nat \<Rightarrow> fvec \<Rightarrow> fvec \<Rightarrow> fvec" where
  "bvec f w xs ys = map (\<lambda>j. f (pick xs j) (pick ys j)) [0..<w]"

definition bop1 :: "(f32 \<Rightarrow> f32 \<Rightarrow> f32) \<Rightarrow> fvec \<Rightarrow> fvec \<Rightarrow> error + fvec" where
  "bop1 f xs ys = then_do (bdim (length xs) (length ys)) (\<lambda>w. Inr (bvec f w xs ys))"

definition bop :: "(f32 \<Rightarrow> f32 \<Rightarrow> f32) \<Rightarrow> mat32 \<Rightarrow> mat32 \<Rightarrow> error + mat32" where
  "bop f X Y =
     then_do (bdim (length (mrows X)) (length (mrows Y))) (\<lambda>n.
     then_do (bdim (ncols X) (ncols Y)) (\<lambda>w.
     Inr \<lparr> ncols = w,
           mrows = map (\<lambda>i. bvec f w (pick (mrows X) i) (pick (mrows Y) i)) [0..<n] \<rparr>))"

text \<open>
  \<^verbatim>\<open>paddle.exp\<close>, and \<^verbatim>\<open>paddle.clip\<close> with \<^verbatim>\<open>max\<close> given: the library checks that the
  lower bound is at most the upper bound and raises otherwise, which rejects a threshold
  below the lowest finite float32 and a NaN threshold, and no other.
\<close>

definition mexp32 :: "mat32 \<Rightarrow> mat32" where
  "mexp32 X = X \<lparr> mrows := map (map fexp) (mrows X) \<rparr>"

definition clip32 :: "mat32 \<Rightarrow> f32 \<Rightarrow> error + mat32" where
  "clip32 X m =
     (if \<not> fle lowest32 m then Inl LibraryError
      else Inr (X \<lparr> mrows := map (map (clip_elem m)) (mrows X) \<rparr>))"

text \<open>
  \<^verbatim>\<open>paddle.concat([x, paddle.unsqueeze(b, 0)], axis=0)\<close> appends the slice \<open>b\<close> and
  raises unless the slices have the same extent; \<^verbatim>\<open>x[1:]\<close> drops the first slice;
  \<^verbatim>\<open>x[t]\<close> raises when \<open>t\<close> is out of range; \<^verbatim>\<open>paddle.stack\<close> raises on an empty
  list and on slices of different extents.
\<close>

definition concat32 :: "mat32 \<Rightarrow> fvec \<Rightarrow> error + mat32" where
  "concat32 X b =
     (if ncols X = length b then Inr (X \<lparr> mrows := mrows X @ [b] \<rparr>) else Inl LibraryError)"

definition from1 :: "mat32 \<Rightarrow> mat32" where
  "from1 X = X \<lparr> mrows := tl (mrows X) \<rparr>"

definition row32 :: "mat32 \<Rightarrow> nat \<Rightarrow> error + fvec" where
  "row32 X t = (if t < length (mrows X) then Inr (mrows X ! t) else Inl LibraryError)"

definition stack32 :: "fvec list \<Rightarrow> error + mat32" where
  "stack32 rs =
     (case rs of
        [] \<Rightarrow> Inl LibraryError
      | r # _ \<Rightarrow> if list_all (\<lambda>x. length x = length r) rs
                 then Inr \<lparr> ncols = length r, mrows = rs \<rparr> else Inl LibraryError)"

section \<open>from_importance_weights on float32 tensors\<close>

text \<open>
  The body of the function, one definition for each local variable, in the order of the
  source (lines 99 to 114). The residual
  \<^verbatim>\<open>rewards + discounts * nxt - values\<close> occurs twice, in \<^verbatim>\<open>deltas\<close> with
  \<^verbatim>\<open>values_t_plus_1\<close> and in \<^verbatim>\<open>pg_advantages\<close> with \<^verbatim>\<open>vs_t_plus_1\<close>.
\<close>

definition log_rhos32 :: "inputs32 \<Rightarrow> error + mat32" where
  "log_rhos32 I =
     bop fsub (mat_of (target_actions_log_probs32 I)) (mat_of (behaviour_actions_log_probs32 I))"

definition rhos32 :: "inputs32 \<Rightarrow> error + mat32" where
  "rhos32 I = then_do (log_rhos32 I) (\<lambda>l. Inr (mexp32 l))"

definition clipped_rhos32 :: "inputs32 \<Rightarrow> f32 option \<Rightarrow> error + mat32" where
  "clipped_rhos32 I clip_rho_threshold =
     then_do (rhos32 I) (\<lambda>rhos.
       case clip_rho_threshold of
         Some m \<Rightarrow> clip32 rhos m
       | None \<Rightarrow> Inr rhos)"

definition cs32 :: "inputs32 \<Rightarrow> error + mat32" where
  "cs32 I = then_do (rhos32 I) (\<lambda>rhos. clip32 rhos (Fin 1))"

definition values_t_plus_1_32 :: "inputs32 \<Rightarrow> error + mat32" where
  "values_t_plus_1_32 I =
     concat32 (from1 (mat_of (values32 I))) (elems32 (bootstrap_value32 I))"

definition residual32 :: "inputs32 \<Rightarrow> mat32 \<Rightarrow> error + mat32" where
  "residual32 I nxt =
     then_do (bop fmul (mat_of (discounts32 I)) nxt) (\<lambda>p.
     then_do (bop fadd (mat_of (rewards32 I)) p) (\<lambda>s.
     bop fsub s (mat_of (values32 I))))"

definition deltas32 :: "inputs32 \<Rightarrow> f32 option \<Rightarrow> error + mat32" where
  "deltas32 I clip_rho_threshold =
     then_do (clipped_rhos32 I clip_rho_threshold) (\<lambda>clipped_rhos.
     then_do (values_t_plus_1_32 I) (\<lambda>values_t_plus_1.
     then_do (residual32 I values_t_plus_1) (\<lambda>td.
     bop fmul clipped_rhos td)))"

text \<open>
  The loop of lines 116 to 121. The first argument is the number of iterations left, so
  the iteration at \<open>Suc t\<close> is the one with loop variable \<open>t\<close>; it computes
  \<^verbatim>\<open>deltas[t] + discounts[t] * cs[t] * acc\<close>, the product from left to right, and
  appends the new accumulator to \<^verbatim>\<open>result\<close>. The loop runs
  \<^verbatim>\<open>discounts.shape[0]\<close> times, from the zero vector of the shape of
  \<^verbatim>\<open>bootstrap_value\<close>; the reversed list is stacked.
\<close>

fun scan_loop32 ::
  "nat \<Rightarrow> mat32 \<Rightarrow> mat32 \<Rightarrow> mat32 \<Rightarrow> fvec \<times> fvec list \<Rightarrow> error + fvec \<times> fvec list" where
  "scan_loop32 0 ds dis c (acc, result) = Inr (acc, result)"
| "scan_loop32 (Suc t) ds dis c (acc, result) =
     then_do (row32 ds t) (\<lambda>d.
     then_do (row32 dis t) (\<lambda>g.
     then_do (row32 c t) (\<lambda>k.
     then_do (bop1 fmul g k) (\<lambda>gk.
     then_do (bop1 fmul gk acc) (\<lambda>p.
     then_do (bop1 fadd d p) (\<lambda>acc'.
     scan_loop32 t ds dis c (acc', result @ [acc'])))))))"

definition vs_minus_v_xs32 :: "inputs32 \<Rightarrow> f32 option \<Rightarrow> error + mat32" where
  "vs_minus_v_xs32 I clip_rho_threshold =
     then_do (deltas32 I clip_rho_threshold) (\<lambda>deltas.
     then_do (cs32 I) (\<lambda>cs.
     then_do (scan_loop32 (length (rows32 (discounts32 I))) deltas (mat_of (discounts32 I)) cs
                (map (\<lambda>_. Fin 0) (elems32 (bootstrap_value32 I)), [])) (\<lambda>(acc, result).
     stack32 (rev result))))"

definition vs_out32 :: "inputs32 \<Rightarrow> f32 option \<Rightarrow> error + mat32" where
  "vs_out32 I clip_rho_threshold =
     then_do (vs_minus_v_xs32 I clip_rho_threshold) (\<lambda>d. bop fadd d (mat_of (values32 I)))"

definition pg_advantages_out32 :: "inputs32 \<Rightarrow> mat32 \<Rightarrow> f32 option \<Rightarrow> error + mat32" where
  "pg_advantages_out32 I vsm clip_pg_rho_threshold =
     then_do (concat32 (from1 vsm) (elems32 (bootstrap_value32 I))) (\<lambda>vs_t_plus_1.
     then_do (clipped_rhos32 I clip_pg_rho_threshold) (\<lambda>clipped_pg_rhos.
     then_do (residual32 I vs_t_plus_1) (\<lambda>adv.
     bop fmul clipped_pg_rhos adv)))"

text \<open>
  The assertions of lines 90 to 95 compare ranks only, and the function as a whole: an
  assertion error when one of them fails, otherwise the body, which fails when a library
  call raises.
\<close>

definition ranks_ok32 :: "inputs32 \<Rightarrow> bool" where
  "ranks_ok32 I \<longleftrightarrow>
     length (shape32 (target_actions_log_probs32 I)) = length (shape32 (behaviour_actions_log_probs32 I)) \<and>
     length (shape32 (values32 I)) = length (shape32 (behaviour_actions_log_probs32 I)) \<and>
     int (length (sshape32 (bootstrap_value32 I)))
       = int (length (shape32 (behaviour_actions_log_probs32 I))) - 1 \<and>
     length (shape32 (discounts32 I)) = length (shape32 (behaviour_actions_log_probs32 I)) \<and>
     length (shape32 (rewards32 I)) = length (shape32 (behaviour_actions_log_probs32 I))"

definition from_importance_weights32 ::
  "inputs32 \<Rightarrow> f32 option \<Rightarrow> f32 option \<Rightarrow> error + VTraceReturns32" where
  "from_importance_weights32 I clip_rho_threshold clip_pg_rho_threshold =
     (if \<not> ranks_ok32 I then Inl AssertionError
      else
        then_do (vs_out32 I clip_rho_threshold) (\<lambda>vsm.
        then_do (pg_advantages_out32 I vsm clip_pg_rho_threshold) (\<lambda>pg.
        Inr \<lparr> vs32 = mrows vsm, pg_advantages32 = mrows pg \<rparr>)))"

section \<open>Valid float32 inputs and the entries of the result\<close>

text \<open>
  A valid input, as in the first embedding: \<open>T \<ge> 1\<close>, \<open>B \<ge> 1\<close>, the five arrays of
  shape \<open>[T, B]\<close> and \<^verbatim>\<open>bootstrap_value\<close> of shape \<open>[B]\<close>. A threshold the library's
  clip accepts is absent or at least the lowest finite float32.
\<close>

definition tabf :: "nat \<Rightarrow> nat \<Rightarrow> (nat \<Rightarrow> nat \<Rightarrow> f32) \<Rightarrow> fvec list" where
  "tabf T B f = map (\<lambda>t. map (f t) [0..<B]) [0..<T]"

definition mtab :: "nat \<Rightarrow> nat \<Rightarrow> (nat \<Rightarrow> nat \<Rightarrow> f32) \<Rightarrow> mat32" where
  "mtab T B f = \<lparr> ncols = B, mrows = tabf T B f \<rparr>"

definition has_shape32 :: "nat \<Rightarrow> nat \<Rightarrow> tensor32 \<Rightarrow> bool" where
  "has_shape32 T B x \<longleftrightarrow>
     shape32 x = [T, B] \<and> length (rows32 x) = T \<and> list_all (\<lambda>r. length r = B) (rows32 x)"

definition time_steps32 :: "inputs32 \<Rightarrow> nat" where
  "time_steps32 I = length (rows32 (discounts32 I))"

definition batch_size32 :: "inputs32 \<Rightarrow> nat" where
  "batch_size32 I = length (elems32 (bootstrap_value32 I))"

definition valid_input32 :: "inputs32 \<Rightarrow> bool" where
  "valid_input32 I \<longleftrightarrow>
     1 \<le> time_steps32 I \<and> 1 \<le> batch_size32 I \<and>
     has_shape32 (time_steps32 I) (batch_size32 I) (behaviour_actions_log_probs32 I) \<and>
     has_shape32 (time_steps32 I) (batch_size32 I) (target_actions_log_probs32 I) \<and>
     has_shape32 (time_steps32 I) (batch_size32 I) (discounts32 I) \<and>
     has_shape32 (time_steps32 I) (batch_size32 I) (rewards32 I) \<and>
     has_shape32 (time_steps32 I) (batch_size32 I) (values32 I) \<and>
     sshape32 (bootstrap_value32 I) = [batch_size32 I]"

definition threshold_ok :: "f32 option \<Rightarrow> bool" where
  "threshold_ok c = (case c of None \<Rightarrow> True | Some m \<Rightarrow> fle lowest32 m)"

text \<open>
  The entries of the locals: the importance ratio, its clipping, the sequence shifted
  forward one step with the bootstrap value last, the residual against a sequence \<open>xs\<close>,
  the clipped residual, and the accumulator of the backward recurrence, each operation
  rounded as the code performs it.
\<close>

definition rho32 :: "inputs32 \<Rightarrow> nat \<Rightarrow> nat \<Rightarrow> f32" where
  "rho32 I t b =
     fexp (fsub (rows32 (target_actions_log_probs32 I) ! t ! b)
                (rows32 (behaviour_actions_log_probs32 I) ! t ! b))"

definition clipped32 :: "f32 option \<Rightarrow> f32 \<Rightarrow> f32" where
  "clipped32 c x = (case c of None \<Rightarrow> x | Some m \<Rightarrow> clip_elem m x)"

definition next32 :: "inputs32 \<Rightarrow> fvec list \<Rightarrow> nat \<Rightarrow> nat \<Rightarrow> f32" where
  "next32 I xs t b =
     (if t + 1 < time_steps32 I then xs ! (t + 1) ! b else elems32 (bootstrap_value32 I) ! b)"

definition td32 :: "inputs32 \<Rightarrow> fvec list \<Rightarrow> nat \<Rightarrow> nat \<Rightarrow> f32" where
  "td32 I xs t b =
     fsub (fadd (rows32 (rewards32 I) ! t ! b)
                (fmul (rows32 (discounts32 I) ! t ! b) (next32 I xs t b)))
          (rows32 (values32 I) ! t ! b)"

definition delta32 :: "inputs32 \<Rightarrow> f32 option \<Rightarrow> nat \<Rightarrow> nat \<Rightarrow> f32" where
  "delta32 I c t b = fmul (clipped32 c (rho32 I t b)) (td32 I (rows32 (values32 I)) t b)"

function acc32 :: "inputs32 \<Rightarrow> f32 option \<Rightarrow> nat \<Rightarrow> nat \<Rightarrow> f32" where
  "acc32 I c t b =
     (if time_steps32 I \<le> t then Fin 0
      else fadd (delta32 I c t b)
             (fmul (fmul (rows32 (discounts32 I) ! t ! b) (clip_elem (Fin 1) (rho32 I t b)))
                (acc32 I c (t + 1) b)))"
  by pat_completeness auto
termination
  by (relation "measure (\<lambda>(I, c, t, b). time_steps32 I - t)") auto

declare acc32.simps [simp del]

definition vs_entries :: "inputs32 \<Rightarrow> f32 option \<Rightarrow> fvec list" where
  "vs_entries I c = tabf (time_steps32 I) (batch_size32 I)
                      (\<lambda>t b. fadd (acc32 I c t b) (rows32 (values32 I) ! t ! b))"

text \<open>
  A finite float32 value is a finite real that rounding leaves unchanged. Inputs are
  finite when every element is.
\<close>

definition closed32 :: "f32 \<Rightarrow> bool" where
  "closed32 x = (case x of Fin a \<Rightarrow> round32 a = Fin a | _ \<Rightarrow> True)"

fun is_fin :: "f32 \<Rightarrow> bool" where
  "is_fin (Fin a) = True"
| "is_fin x = False"

definition finite32 :: "f32 \<Rightarrow> bool" where
  "finite32 x \<longleftrightarrow> is_fin x \<and> closed32 x"

definition finite_tensor :: "tensor32 \<Rightarrow> bool" where
  "finite_tensor x \<longleftrightarrow> list_all (list_all finite32) (rows32 x)"

definition finite_inputs32 :: "inputs32 \<Rightarrow> bool" where
  "finite_inputs32 I \<longleftrightarrow>
     finite_tensor (behaviour_actions_log_probs32 I) \<and>
     finite_tensor (target_actions_log_probs32 I) \<and>
     finite_tensor (discounts32 I) \<and>
     finite_tensor (rewards32 I) \<and>
     finite_tensor (values32 I) \<and>
     list_all finite32 (elems32 (bootstrap_value32 I))"

text \<open>
  The conditions of the statements below: a threshold that is absent or at least \<open>1\<close>;
  two inputs that agree at all timesteps up to and including \<open>t\<close>; a rank mismatch, in
  the words of the specification (the ranks of the five trajectory arrays are not all the
  same, or the rank of \<^verbatim>\<open>bootstrap_value\<close> is not exactly one less); a
  \<^verbatim>\<open>bootstrap_value\<close> of rank one whose length is not the trailing dimension \<open>B\<close> of
  five arrays of identical shape \<open>[T, B]\<close>; a trajectory of no steps, five arrays of shape
  \<open>[0, B]\<close> beside a \<^verbatim>\<open>bootstrap_value\<close> of shape \<open>[B]\<close>; and the comparison of two
  results by magnitude, where a NaN compares with nothing.
\<close>

fun absent_or_at_least_one32 :: "f32 option \<Rightarrow> bool" where
  "absent_or_at_least_one32 None = True"
| "absent_or_at_least_one32 (Some (Fin m)) = (1 \<le> m)"
| "absent_or_at_least_one32 (Some PInf) = True"
| "absent_or_at_least_one32 (Some NInf) = False"
| "absent_or_at_least_one32 (Some NaN) = False"

definition agree_upto32 :: "nat \<Rightarrow> inputs32 \<Rightarrow> inputs32 \<Rightarrow> bool" where
  "agree_upto32 t I J \<longleftrightarrow>
     take (Suc t) (rows32 (behaviour_actions_log_probs32 I))
       = take (Suc t) (rows32 (behaviour_actions_log_probs32 J)) \<and>
     take (Suc t) (rows32 (target_actions_log_probs32 I))
       = take (Suc t) (rows32 (target_actions_log_probs32 J)) \<and>
     take (Suc t) (rows32 (discounts32 I)) = take (Suc t) (rows32 (discounts32 J)) \<and>
     take (Suc t) (rows32 (rewards32 I)) = take (Suc t) (rows32 (rewards32 J)) \<and>
     take (Suc t) (rows32 (values32 I)) = take (Suc t) (rows32 (values32 J))"




fun mag_le :: "f32 \<Rightarrow> f32 \<Rightarrow> bool" where
  "mag_le (Fin a) (Fin b) = (\<bar>a\<bar> \<le> \<bar>b\<bar>)"
| "mag_le NaN y = False"
| "mag_le x NaN = False"
| "mag_le x PInf = True"
| "mag_le x NInf = True"
| "mag_le PInf (Fin b) = False"
| "mag_le NInf (Fin b) = False"

section \<open>Concrete float32 trajectories\<close>

text \<open>
  One step, one lane: behaviour and target log-probabilities \<open>lb\<close> and \<open>lt\<close>, discount
  \<open>gamma\<close>, reward \<open>r\<close>, value \<open>v\<close> and bootstrap value \<open>vb\<close>.
\<close>

definition step32 :: "real \<Rightarrow> real \<Rightarrow> real \<Rightarrow> real \<Rightarrow> real \<Rightarrow> real \<Rightarrow> inputs32" where
  "step32 lb lt gamma r v vb =
     \<lparr> behaviour_actions_log_probs32 = \<lparr> shape32 = [1, 1], rows32 = [[Fin lb]] \<rparr>,
       target_actions_log_probs32 = \<lparr> shape32 = [1, 1], rows32 = [[Fin lt]] \<rparr>,
       discounts32 = \<lparr> shape32 = [1, 1], rows32 = [[Fin gamma]] \<rparr>,
       rewards32 = \<lparr> shape32 = [1, 1], rows32 = [[Fin r]] \<rparr>,
       values32 = \<lparr> shape32 = [1, 1], rows32 = [[Fin v]] \<rparr>,
       bootstrap_value32 = \<lparr> sshape32 = [1], elems32 = [Fin vb] \<rparr> \<rparr>"

text \<open>
  Two steps, one lane, on-policy, with discount \<open>0\<close> at step 1 and reward \<open>r1\<close> there;
  and three steps whose first two are those of \<open>two32 (-10)\<close>, with reward and
  bootstrap value \<open>big\<close> at the third.
\<close>

definition two32 :: "real \<Rightarrow> inputs32" where
  "two32 r1 =
     \<lparr> behaviour_actions_log_probs32 = \<lparr> shape32 = [2, 1], rows32 = [[Fin 0], [Fin 0]] \<rparr>,
       target_actions_log_probs32 = \<lparr> shape32 = [2, 1], rows32 = [[Fin 0], [Fin 0]] \<rparr>,
       discounts32 = \<lparr> shape32 = [2, 1], rows32 = [[Fin 1], [Fin 0]] \<rparr>,
       rewards32 = \<lparr> shape32 = [2, 1], rows32 = [[Fin 1], [Fin r1]] \<rparr>,
       values32 = \<lparr> shape32 = [2, 1], rows32 = [[Fin 0], [Fin 0]] \<rparr>,
       bootstrap_value32 = \<lparr> sshape32 = [1], elems32 = [Fin 0] \<rparr> \<rparr>"

definition three32 :: "real \<Rightarrow> inputs32" where
  "three32 big =
     \<lparr> behaviour_actions_log_probs32 = \<lparr> shape32 = [3, 1], rows32 = [[Fin 0], [Fin 0], [Fin 0]] \<rparr>,
       target_actions_log_probs32 = \<lparr> shape32 = [3, 1], rows32 = [[Fin 0], [Fin 0], [Fin 0]] \<rparr>,
       discounts32 = \<lparr> shape32 = [3, 1], rows32 = [[Fin 1], [Fin 0], [Fin 1]] \<rparr>,
       rewards32 = \<lparr> shape32 = [3, 1], rows32 = [[Fin 1], [Fin (- 10)], [Fin big]] \<rparr>,
       values32 = \<lparr> shape32 = [3, 1], rows32 = [[Fin 0], [Fin 0], [Fin 0]] \<rparr>,
       bootstrap_value32 = \<lparr> sshape32 = [1], elems32 = [Fin big] \<rparr> \<rparr>"

text \<open>
  Two steps, one lane, with the values at a fixed point of the one-step backup
  (\<open>1 + 1 * 2 - 3 = 0\<close> and \<open>1 + 1 * 1 - 2 = 0\<close>) and log-probabilities at step 0 that
  differ by \<open>100\<close>, so that the ratio there overflows.
\<close>

definition fixed_point_two :: inputs32 where
  "fixed_point_two =
     \<lparr> behaviour_actions_log_probs32 = \<lparr> shape32 = [2, 1], rows32 = [[Fin (- 100)], [Fin 0]] \<rparr>,
       target_actions_log_probs32 = \<lparr> shape32 = [2, 1], rows32 = [[Fin 0], [Fin 0]] \<rparr>,
       discounts32 = \<lparr> shape32 = [2, 1], rows32 = [[Fin 1], [Fin 1]] \<rparr>,
       rewards32 = \<lparr> shape32 = [2, 1], rows32 = [[Fin 1], [Fin 1]] \<rparr>,
       values32 = \<lparr> shape32 = [2, 1], rows32 = [[Fin 3], [Fin 2]] \<rparr>,
       bootstrap_value32 = \<lparr> sshape32 = [1], elems32 = [Fin 1] \<rparr> \<rparr>"

text \<open>
  Lane 0 of the two-step trajectory of the first embedding: ratio \<open>exp 1\<close> at step 0,
  residual \<open>1\<close> there and \<open>-10\<close> at step 1.
\<close>

definition two_steps32 :: inputs32 where
  "two_steps32 =
     \<lparr> behaviour_actions_log_probs32 = \<lparr> shape32 = [2, 1], rows32 = [[Fin (- 1)], [Fin 0]] \<rparr>,
       target_actions_log_probs32 = \<lparr> shape32 = [2, 1], rows32 = [[Fin 0], [Fin 0]] \<rparr>,
       discounts32 = \<lparr> shape32 = [2, 1], rows32 = [[Fin 1], [Fin 0]] \<rparr>,
       rewards32 = \<lparr> shape32 = [2, 1], rows32 = [[Fin 1], [Fin (- 10)]] \<rparr>,
       values32 = \<lparr> shape32 = [2, 1], rows32 = [[Fin 0], [Fin 0]] \<rparr>,
       bootstrap_value32 = \<lparr> sshape32 = [1], elems32 = [Fin 0] \<rparr> \<rparr>"





section \<open>Unfolding the function body\<close>

lemmas body_defs =
  from_importance_weights_def ranks_ok_def rank_def vs_out_def vs_minus_v_xs_def deltas_def
  clipped_rhos_def pg_advantages_out_def clipped_pg_rhos_def vs_t_plus_1_def clip_def
  log_rhos_def rhos_def mexp_def cs_def values_t_plus_1_def shift_bootstrap_def zeros_like_def
  madd_def msub_def mmul_def vadd_def vsub_def vmul_def Let_def

section \<open>Pointwise operations on vectors\<close>

lemma nth_vadd: "i < length xs \<Longrightarrow> i < length ys \<Longrightarrow> vadd xs ys ! i = xs ! i + ys ! i"
  by (simp add: vadd_def)

lemma nth_vsub: "i < length xs \<Longrightarrow> i < length ys \<Longrightarrow> vsub xs ys ! i = xs ! i - ys ! i"
  by (simp add: vsub_def)

lemma nth_vmul: "i < length xs \<Longrightarrow> i < length ys \<Longrightarrow> vmul xs ys ! i = xs ! i * ys ! i"
  by (simp add: vmul_def)

lemma length_vadd: "length (vadd xs ys) = min (length xs) (length ys)"
  by (simp add: vadd_def)

lemma length_vsub: "length (vsub xs ys) = min (length xs) (length ys)"
  by (simp add: vsub_def)

lemma length_vmul: "length (vmul xs ys) = min (length xs) (length ys)"
  by (simp add: vmul_def)

lemma nth_madd: "i < length xs \<Longrightarrow> i < length ys \<Longrightarrow> madd xs ys ! i = vadd (xs ! i) (ys ! i)"
  by (simp add: madd_def)

lemma nth_msub: "i < length xs \<Longrightarrow> i < length ys \<Longrightarrow> msub xs ys ! i = vsub (xs ! i) (ys ! i)"
  by (simp add: msub_def)

lemma nth_mmul: "i < length xs \<Longrightarrow> i < length ys \<Longrightarrow> mmul xs ys ! i = vmul (xs ! i) (ys ! i)"
  by (simp add: mmul_def)

lemma length_madd: "length (madd xs ys) = min (length xs) (length ys)"
  by (simp add: madd_def)

lemma length_msub: "length (msub xs ys) = min (length xs) (length ys)"
  by (simp add: msub_def)

lemma length_mmul: "length (mmul xs ys) = min (length xs) (length ys)"
  by (simp add: mmul_def)

section \<open>The backward scan\<close>

lemma scan_loop_closed:
  assumes "\<forall>k<n. length (ds ! k) = B \<and> length (dis ! k) = B \<and> length (c ! k) = B"
    and "\<forall>k<n. \<forall>b<B. g k b = ds ! k ! b + dis ! k ! b * c ! k ! b * g (Suc k) b"
    and "acc = map (g n) [0..<B]"
  shows "snd (scan_loop n ds dis c (acc, res)) = res @ rev (map (\<lambda>t. map (g t) [0..<B]) [0..<n])"
  using assms
proof (induction n arbitrary: acc res)
  case 0
  then show ?case by simp
next
  case (Suc n)
  let ?a = "vadd (ds ! n) (vmul (vmul (dis ! n) (c ! n)) acc)"
  have len: "length (ds ! n) = B" "length (dis ! n) = B" "length (c ! n) = B" "length acc = B"
    using Suc.prems by simp_all
  have a: "?a = map (g n) [0..<B]"
    by (rule nth_equalityI) (use len Suc.prems in \<open>simp_all add: nth_vadd nth_vmul length_vadd length_vmul\<close>)
  have "snd (scan_loop n ds dis c (?a, res @ [?a]))
          = (res @ [?a]) @ rev (map (\<lambda>t. map (g t) [0..<B]) [0..<n])"
    by (rule Suc.IH) (use Suc.prems a in simp_all)
  then show ?case by (simp add: a Let_def)
qed

section \<open>Tables\<close>

lemma tab_cong: "(\<And>t b. t < T \<Longrightarrow> b < B \<Longrightarrow> f t b = g t b) \<Longrightarrow> tab T B f = tab T B g"
  by (simp add: tab_def)

lemma nth_tab: "t < T \<Longrightarrow> b < B \<Longrightarrow> tab T B f ! t ! b = f t b"
  by (simp add: tab_def)

lemma length_tab: "length (tab T B f) = T"
  by (simp add: tab_def)

lemma length_nth_tab: "t < T \<Longrightarrow> length (tab T B f ! t) = B"
  by (simp add: tab_def)

lemma tab_of_rows:
  assumes "length xs = T" and "list_all (\<lambda>r. length r = B) xs"
  shows "xs = tab T B (\<lambda>t b. xs ! t ! b)"
proof (rule nth_equalityI)
  show "length xs = length (tab T B (\<lambda>t b. xs ! t ! b))"
    using assms by (simp add: tab_def)
next
  fix t assume t: "t < length xs"
  then have "length (xs ! t) = B"
    using assms(2) by (simp add: list_all_length)
  then have "xs ! t = map (\<lambda>b. xs ! t ! b) [0..<B]"
    by (auto intro: nth_equalityI)
  then show "xs ! t = tab T B (\<lambda>t b. xs ! t ! b) ! t"
    using t assms(1) by (simp add: tab_def)
qed

lemma vadd_map: "vadd (map f [0..<B]) (map g [0..<B]) = map (\<lambda>b. f b + g b) [0..<B]"
  by (rule nth_equalityI) (simp_all add: vadd_def)

lemma vsub_map: "vsub (map f [0..<B]) (map g [0..<B]) = map (\<lambda>b. f b - g b) [0..<B]"
  by (rule nth_equalityI) (simp_all add: vsub_def)

lemma vmul_map: "vmul (map f [0..<B]) (map g [0..<B]) = map (\<lambda>b. f b * g b) [0..<B]"
  by (rule nth_equalityI) (simp_all add: vmul_def)

lemma madd_tab: "madd (tab T B f) (tab T B g) = tab T B (\<lambda>t b. f t b + g t b)"
  by (rule nth_equalityI) (simp_all add: madd_def tab_def vadd_map)

lemma msub_tab: "msub (tab T B f) (tab T B g) = tab T B (\<lambda>t b. f t b - g t b)"
  by (rule nth_equalityI) (simp_all add: msub_def tab_def vsub_map)

lemma mmul_tab: "mmul (tab T B f) (tab T B g) = tab T B (\<lambda>t b. f t b * g t b)"
  by (rule nth_equalityI) (simp_all add: mmul_def tab_def vmul_map)

lemma mexp_tab: "mexp (tab T B f) = tab T B (\<lambda>t b. exp (f t b))"
  by (simp add: mexp_def tab_def comp_def)

lemma clip_tab: "clip (tab T B f) m = tab T B (\<lambda>t b. clip_max (f t b) m)"
  by (simp add: clip_def tab_def comp_def)

lemma shift_bootstrap_tab:
  assumes "1 \<le> T" and "length v = B"
  shows "shift_bootstrap (tab T B f) v = tab T B (\<lambda>t b. if t + 1 < T then f (t + 1) b else v ! b)"
proof (rule nth_equalityI)
  show "length (shift_bootstrap (tab T B f) v)
          = length (tab T B (\<lambda>t b. if t + 1 < T then f (t + 1) b else v ! b))"
    using assms by (simp add: shift_bootstrap_def tab_def)
next
  fix t assume "t < length (shift_bootstrap (tab T B f) v)"
  then have t: "t < T"
    using assms by (simp add: shift_bootstrap_def tab_def)
  have v: "v = map (\<lambda>b. v ! b) [0..<B]"
    using assms(2) by (auto intro: nth_equalityI)
  show "shift_bootstrap (tab T B f) v ! t
          = tab T B (\<lambda>t b. if t + 1 < T then f (t + 1) b else v ! b) ! t"
  proof (cases "t + 1 < T")
    case True
    then have "t < T - 1" by arith
    with True show ?thesis
      by (simp add: shift_bootstrap_def tab_def nth_append nth_tl)
  next
    case False
    with t have "t = T - 1" by simp
    with t v show ?thesis
      by (simp add: shift_bootstrap_def tab_def nth_append)
  qed
qed

section \<open>The local variables as tables\<close>

lemma has_shape_tab:
  "has_shape T B x \<Longrightarrow> rows x = tab T B (\<lambda>t b. rows x ! t ! b)"
  unfolding has_shape_def by (rule tab_of_rows) simp_all

lemma valid_ranks_ok: "valid_input I \<Longrightarrow> ranks_ok I"
  by (simp add: valid_input_def has_shape_def ranks_ok_def rank_def)

lemma rhos_tab:
  assumes "valid_input I"
  shows "rhos I = tab (time_steps I) (batch_size I) (rho_spec I)"
proof -
  define p where "p = (\<lambda>t b. rows (target_actions_log_probs I) ! t ! b)"
  define q where "q = (\<lambda>t b. rows (behaviour_actions_log_probs I) ! t ! b)"
  have "rows (target_actions_log_probs I) = tab (time_steps I) (batch_size I) p"
    and "rows (behaviour_actions_log_probs I) = tab (time_steps I) (batch_size I) q"
    using assms unfolding p_def q_def valid_input_def by (simp_all add: has_shape_tab)
  then have "rhos I = tab (time_steps I) (batch_size I) (\<lambda>t b. exp (p t b - q t b))"
    by (simp add: rhos_def log_rhos_def msub_tab mexp_tab)
  then show ?thesis
    by (simp add: p_def q_def rho_spec_def [abs_def])
qed

lemma clipped_rhos_tab:
  assumes "valid_input I"
  shows "clipped_rhos I thr
           = tab (time_steps I) (batch_size I) (\<lambda>t b. clipped_spec thr (rho_spec I t b))"
  by (cases thr) (simp_all add: clipped_rhos_def clipped_spec_def rhos_tab [OF assms] clip_tab)

lemma clipped_pg_rhos_tab:
  assumes "valid_input I"
  shows "clipped_pg_rhos I thr
           = tab (time_steps I) (batch_size I) (\<lambda>t b. clipped_spec thr (rho_spec I t b))"
  by (cases thr) (simp_all add: clipped_pg_rhos_def clipped_spec_def rhos_tab [OF assms] clip_tab)

lemma cs_tab:
  assumes "valid_input I"
  shows "cs I = tab (time_steps I) (batch_size I) (\<lambda>t b. min (rho_spec I t b) 1)"
  by (simp add: cs_def rhos_tab [OF assms] clip_tab)

lemma td_tab:
  assumes "valid_input I" and "xs = tab (time_steps I) (batch_size I) f"
  shows "msub (madd (rows (rewards I))
            (mmul (rows (discounts I)) (shift_bootstrap xs (elems (bootstrap_value I)))))
            (rows (values_in I))
         = tab (time_steps I) (batch_size I)
             (\<lambda>t b. rows (rewards I) ! t ! b
                      + rows (discounts I) ! t ! b * next_spec I xs t b
                      - rows (values_in I) ! t ! b)"
proof -
  let ?T = "time_steps I" and ?B = "batch_size I"
  define r where "r = (\<lambda>t b. rows (rewards I) ! t ! b)"
  define d where "d = (\<lambda>t b. rows (discounts I) ! t ! b)"
  define v where "v = (\<lambda>t b. rows (values_in I) ! t ! b)"
  have rw: "rows (rewards I) = tab ?T ?B r" "rows (discounts I) = tab ?T ?B d"
    "rows (values_in I) = tab ?T ?B v"
    using assms(1) unfolding r_def d_def v_def valid_input_def by (simp_all add: has_shape_tab)
  have T: "1 \<le> ?T" and B: "length (elems (bootstrap_value I)) = ?B"
    using assms(1) by (simp_all add: valid_input_def batch_size_def)
  have "shift_bootstrap xs (elems (bootstrap_value I)) = tab ?T ?B (next_spec I xs)"
    unfolding assms(2) shift_bootstrap_tab [OF T B]
    by (rule tab_cong) (simp add: next_spec_def nth_tab)
  then have "msub (madd (tab ?T ?B r)
            (mmul (tab ?T ?B d) (shift_bootstrap xs (elems (bootstrap_value I)))))
            (tab ?T ?B v)
         = tab ?T ?B (\<lambda>t b. r t b + d t b * next_spec I xs t b - v t b)"
    by (simp add: madd_tab msub_tab mmul_tab)
  from this [folded rw] show ?thesis
    by (simp add: r_def d_def v_def)
qed

lemma deltas_tab:
  assumes "valid_input I"
  shows "deltas I thr = tab (time_steps I) (batch_size I) (delta_spec I thr)"
proof -
  have v: "rows (values_in I)
             = tab (time_steps I) (batch_size I) (\<lambda>t b. rows (values_in I) ! t ! b)"
    using assms by (simp add: valid_input_def has_shape_tab)
  show ?thesis
    unfolding deltas_def values_t_plus_1_def td_tab [OF assms v] clipped_rhos_tab [OF assms]
    by (simp add: mmul_tab delta_spec_def [abs_def] td_spec_def [abs_def])
qed

lemma vs_minus_v_xs_tab:
  assumes "valid_input I"
  shows "vs_minus_v_xs I thr = tab (time_steps I) (batch_size I) (acc_spec I thr)"
proof -
  let ?T = "time_steps I" and ?B = "batch_size I"
  define d where "d = (\<lambda>t b. rows (discounts I) ! t ! b)"
  have dis: "rows (discounts I) = tab ?T ?B d"
    using assms unfolding d_def valid_input_def by (simp add: has_shape_tab)
  have "snd (scan_loop ?T (deltas I thr) (rows (discounts I)) (cs I)
               (zeros_like (elems (bootstrap_value I)), []))
          = [] @ rev (map (\<lambda>t. map (acc_spec I thr t) [0..<?B]) [0..<?T])"
  proof (rule scan_loop_closed)
    show "\<forall>k<?T. length (deltas I thr ! k) = ?B \<and> length (rows (discounts I) ! k) = ?B
            \<and> length (cs I ! k) = ?B"
      unfolding deltas_tab [OF assms] cs_tab [OF assms] dis by (simp add: length_nth_tab)
    show "\<forall>k<?T. \<forall>b<?B. acc_spec I thr k b
            = deltas I thr ! k ! b + rows (discounts I) ! k ! b * cs I ! k ! b * acc_spec I thr (Suc k) b"
      unfolding deltas_tab [OF assms] cs_tab [OF assms]
      by (simp add: nth_tab acc_spec.simps [of I thr "k" for k, unfolded Suc_eq_plus1 [symmetric]])
    show "zeros_like (elems (bootstrap_value I)) = map (acc_spec I thr ?T) [0..<?B]"
      by (rule nth_equalityI) (simp_all add: zeros_like_def batch_size_def acc_spec.simps [of I thr ?T])
  qed
  then show ?thesis
    by (simp add: vs_minus_v_xs_def tab_def split_beta rev_map time_steps_def)
qed

lemma vs_out_tab:
  assumes "valid_input I"
  shows "vs_out I thr = tab (time_steps I) (batch_size I)
           (\<lambda>t b. acc_spec I thr t b + rows (values_in I) ! t ! b)"
proof -
  define v where "v = (\<lambda>t b. rows (values_in I) ! t ! b)"
  have "rows (values_in I) = tab (time_steps I) (batch_size I) v"
    using assms unfolding v_def valid_input_def by (simp add: has_shape_tab)
  then have "vs_out I thr = tab (time_steps I) (batch_size I) (\<lambda>t b. acc_spec I thr t b + v t b)"
    by (simp add: vs_out_def vs_minus_v_xs_tab [OF assms] madd_tab)
  then show ?thesis by (simp add: v_def)
qed

lemma pg_advantages_out_tab:
  assumes "valid_input I"
  shows "pg_advantages_out I c1 c2 = tab (time_steps I) (batch_size I)
           (\<lambda>t b. clipped_spec c2 (rho_spec I t b)
                    * (rows (rewards I) ! t ! b
                       + rows (discounts I) ! t ! b * next_spec I (vs_out I c1) t b
                       - rows (values_in I) ! t ! b))"
  unfolding pg_advantages_out_def vs_t_plus_1_def
    td_tab [OF assms vs_out_tab [OF assms]] clipped_pg_rhos_tab [OF assms]
  by (simp add: mmul_tab)

lemma returns_on_valid:
  "valid_input I \<Longrightarrow> from_importance_weights I c1 c2
     = Inr \<lparr> vs = vs_out I c1, pg_advantages = pg_advantages_out I c1 c2 \<rparr>"
  by (simp add: from_importance_weights_def valid_ranks_ok)

lemma valid_two_steps: "valid_input two_steps"
  by (simp add: valid_input_def has_shape_def time_steps_def batch_size_def two_steps_def)

lemma sizes_two_steps: "time_steps two_steps = 2" "batch_size two_steps = 2"
  by (simp_all add: time_steps_def batch_size_def two_steps_def)

lemma acc_two_steps:
  "acc_spec two_steps (Some (Finite 1)) 0 0 = -9"
  "acc_spec two_steps (Some (Finite 1)) (Suc 0) 0 = -10"
  by (simp_all add: acc_spec.simps delta_spec_def td_spec_def next_spec_def
      rho_spec_def clipped_spec_def time_steps_def two_steps_def)

section \<open>The value targets\<close>

text \<open>
  Claim C1. For every valid input (all \<open>[T, B]\<close> arrays of one shape, \<open>T \<ge> 1\<close>,
  \<open>B \<ge> 1\<close>, \<open>bootstrap_value\<close> of shape \<open>[B]\<close>) the function returns, and its
  \<open>vs\<close> is a \<open>[T, B]\<close> array whose entry at \<open>(t, b)\<close> is \<open>values[t][b]\<close> plus the
  accumulator \<open>acc\<^sub>t\<close> of the backward recurrence of the specification, with the
  clipped residuals \<open>deltas\<close>, the shifted values and the ratios as the specification
  defines them.
\<close>

theorem vs_backward_recurrence:
  assumes "valid_input I"
  shows "\<exists>r. from_importance_weights I c1 c2 = Inr r
           \<and> length (vs r) = time_steps I
           \<and> (\<forall>t<time_steps I. length (vs r ! t) = batch_size I
                \<and> (\<forall>b<batch_size I.
                      vs r ! t ! b = rows (values_in I) ! t ! b + acc_spec I c1 t b))"
  by (simp add: returns_on_valid [OF assms] vs_out_tab [OF assms] length_tab length_nth_tab nth_tab)

theorem vs_backward_recurrence_witness:
  "valid_input two_steps
   \<and> (\<exists>r. from_importance_weights two_steps (Some (Finite 1)) None = Inr r
          \<and> length (vs r) = 2 \<and> vs r ! 0 ! 0 = -9 \<and> vs r ! 1 ! 0 = -10)"
proof -
  from vs_backward_recurrence [OF valid_two_steps, of "Some (Finite 1)" None]
  obtain r where r: "from_importance_weights two_steps (Some (Finite 1)) None = Inr r"
    and len: "length (vs r) = time_steps two_steps"
    and e: "\<And>t b. t < time_steps two_steps \<Longrightarrow> b < batch_size two_steps \<Longrightarrow>
              vs r ! t ! b = rows (values_in two_steps) ! t ! b
                               + acc_spec two_steps (Some (Finite 1)) t b"
    by blast
  have v: "rows (values_in two_steps) = [[0, 0], [0, 0]]"
    by (simp add: two_steps_def)
  have "vs r ! 0 ! 0 = -9" and "vs r ! 1 ! 0 = -10"
    using e [of 0 0] e [of 1 0] by (simp_all add: sizes_two_steps acc_two_steps v)
  with r len valid_two_steps show ?thesis
    by (simp add: sizes_two_steps)
qed

section \<open>The policy-gradient advantages\<close>

text \<open>
  Claim C2. For every valid input the \<open>pg_advantages\<close> output is a \<open>[T, B]\<close> array with
  entry \<open>clipped_pg_rhos * (rewards + discounts * vs_t_plus_1 - values)\<close> at \<open>(t, b)\<close>,
  where \<open>vs_t_plus_1\<close> is the returned \<open>vs\<close> shifted forward one step with
  \<open>bootstrap_value\<close> at position \<open>T - 1\<close>, and \<open>clipped_pg_rhos\<close> is the ratio clipped
  from above at \<open>clip_pg_rho_threshold\<close> when that is present; the threshold of \<open>vs\<close>
  plays no part in the clipping.
\<close>

theorem pg_advantages_formula:
  assumes "valid_input I"
  shows "\<exists>r. from_importance_weights I c1 c2 = Inr r
           \<and> length (pg_advantages r) = time_steps I
           \<and> (\<forall>t<time_steps I. length (pg_advantages r ! t) = batch_size I
                \<and> (\<forall>b<batch_size I.
                      pg_advantages r ! t ! b
                        = clipped_spec c2 (rho_spec I t b)
                            * (rows (rewards I) ! t ! b
                               + rows (discounts I) ! t ! b * next_spec I (vs r) t b
                               - rows (values_in I) ! t ! b)))"
  by (simp add: returns_on_valid [OF assms] pg_advantages_out_tab [OF assms]
      length_tab length_nth_tab nth_tab)

theorem pg_advantages_formula_witness:
  "valid_input two_steps
   \<and> (\<exists>r. from_importance_weights two_steps None (Some (Finite 1)) = Inr r
          \<and> length (pg_advantages r) = 2
          \<and> pg_advantages r ! 0 ! 0 = -9 \<and> pg_advantages r ! 1 ! 0 = -10)"
proof -
  from pg_advantages_formula [OF valid_two_steps, of None "Some (Finite 1)"]
  obtain r where r: "from_importance_weights two_steps None (Some (Finite 1)) = Inr r"
    and len: "length (pg_advantages r) = time_steps two_steps"
    and e: "\<And>t b. t < time_steps two_steps \<Longrightarrow> b < batch_size two_steps \<Longrightarrow>
              pg_advantages r ! t ! b
                = clipped_spec (Some (Finite 1)) (rho_spec two_steps t b)
                    * (rows (rewards two_steps) ! t ! b
                       + rows (discounts two_steps) ! t ! b * next_spec two_steps (vs r) t b
                       - rows (values_in two_steps) ! t ! b)"
    by blast
  have "vs r = vs_out two_steps None"
    using r by (auto simp add: returns_on_valid [OF valid_two_steps])
  also have "\<dots> = [[exp 1 - 10, 0], [-10, 0]]"
    by (simp add: body_defs two_steps_def)
  finally have vs: "vs r = [[exp 1 - 10, 0], [-10, 0]]" .
  have "pg_advantages r ! 0 ! 0 = -9" and "pg_advantages r ! 1 ! 0 = -10"
    using e [of 0 0] e [of 1 0]
    by (simp_all add: time_steps_def batch_size_def vs next_spec_def clipped_spec_def rho_spec_def
        two_steps_def)
  with r len valid_two_steps show ?thesis
    by (simp add: sizes_two_steps)
qed

section \<open>The trace-cutting coefficient\<close>

text \<open>
  Claim C3. On every input the trace-cutting coefficient \<open>cs\<close> is \<open>min(rhos, 1.0)\<close>
  elementwise. It is computed from the two log-probability arrays alone: neither clip
  threshold is an argument of it.
\<close>

theorem cs_is_min_rhos_one: "cs I = map (map (\<lambda>x. min x 1)) (rhos I)"
  by (simp add: cs_def clip_def)

section \<open>Absent thresholds and a threshold of plus infinity\<close>

text \<open>
  Claim C8. Calling the function with both clip thresholds absent yields the same pair
  \<open>(vs, pg_advantages)\<close>, or the same failure, as calling it with both thresholds equal
  to plus infinity.
\<close>

theorem absent_is_plus_infinity:
  "from_importance_weights I None None
     = from_importance_weights I (Some PlusInfinity) (Some PlusInfinity)"
  by (simp add: from_importance_weights_def vs_out_def vs_minus_v_xs_def deltas_def
      clipped_rhos_def pg_advantages_out_def clipped_pg_rhos_def vs_t_plus_1_def clip_def)

section \<open>The default thresholds\<close>

text \<open>
  Claim C5. A caller who leaves both clip thresholds out does not get the behaviour of
  absent thresholds: both defaults are \<open>1.0\<close>, so the call is the call with both
  thresholds \<open>1.0\<close>, and \<open>clipped_rhos\<close>, \<open>clipped_pg_rhos\<close> and \<open>cs\<close> are all
  \<open>min(rhos, 1.0)\<close> elementwise. With \<open>None\<close> passed explicitly the two clipped
  ratios are \<open>rhos\<close> itself. On the two-step trajectory the two calls return different
  results.
\<close>

theorem default_thresholds_clip_at_one:
  "default_clip_rho_threshold = Some (Finite 1)
   \<and> default_clip_pg_rho_threshold = Some (Finite 1)
   \<and> call_from_importance_weights I Omitted Omitted
       = from_importance_weights I (Some (Finite 1)) (Some (Finite 1))
   \<and> clipped_rhos I (bind_default default_clip_rho_threshold Omitted)
       = map (map (\<lambda>x. min x 1)) (rhos I)
   \<and> clipped_pg_rhos I (bind_default default_clip_pg_rho_threshold Omitted)
       = map (map (\<lambda>x. min x 1)) (rhos I)
   \<and> cs I = map (map (\<lambda>x. min x 1)) (rhos I)
   \<and> clipped_rhos I (bind_default default_clip_rho_threshold (Given None)) = rhos I
   \<and> clipped_pg_rhos I (bind_default default_clip_pg_rho_threshold (Given None)) = rhos I
   \<and> call_from_importance_weights two_steps Omitted Omitted
       = Inr \<lparr> vs = [[-9, 0], [-10, 0]], pg_advantages = [[-9, 0], [-10, 0]] \<rparr>
   \<and> call_from_importance_weights two_steps (Given None) (Given None)
       = Inr \<lparr> vs = [[exp 1 - 10, 0], [-10, 0]], pg_advantages = [[- (exp 1 * 9), 0], [-10, 0]] \<rparr>
   \<and> call_from_importance_weights two_steps Omitted Omitted
       \<noteq> call_from_importance_weights two_steps (Given None) (Given None)"
proof -
  have a: "call_from_importance_weights two_steps Omitted Omitted
       = Inr \<lparr> vs = [[-9, 0], [-10, 0]], pg_advantages = [[-9, 0], [-10, 0]] \<rparr>"
    by (simp add: call_from_importance_weights_def default_clip_rho_threshold_def
        default_clip_pg_rho_threshold_def body_defs two_steps_def)
  have b: "call_from_importance_weights two_steps (Given None) (Given None)
       = Inr \<lparr> vs = [[exp 1 - 10, 0], [-10, 0]], pg_advantages = [[- (exp 1 * 9), 0], [-10, 0]] \<rparr>"
    by (simp add: call_from_importance_weights_def body_defs two_steps_def)
  show ?thesis
    unfolding a b
    by (simp add: call_from_importance_weights_def default_clip_rho_threshold_def
        default_clip_pg_rho_threshold_def clipped_rhos_def clipped_pg_rhos_def cs_def clip_def)
qed

section \<open>Rounding to float32\<close>

lemma rne_of_int [simp]: "rne (of_int n) = n"
  by (simp add: rne_def)

lemma rne_cases: "rne y = \<lfloor>y\<rfloor> \<or> (rne y = \<lfloor>y\<rfloor> + 1 \<and> 1 / 2 \<le> y - of_int \<lfloor>y\<rfloor>)"
  unfolding rne_def Let_def by auto

lemma rne_lower: "of_int a \<le> y \<Longrightarrow> a \<le> rne y"
  using rne_cases [of y] le_floor_iff [of a y] by auto

lemma rne_upper:
  assumes "y \<le> of_int b"
  shows "rne y \<le> b"
proof -
  have fl: "\<lfloor>y\<rfloor> \<le> b"
    using assms by (simp add: floor_le_iff)
  show ?thesis
  proof (cases "rne y = \<lfloor>y\<rfloor>")
    case True
    with fl show ?thesis by simp
  next
    case False
    then have r: "rne y = \<lfloor>y\<rfloor> + 1" and d: "1 / 2 \<le> y - of_int \<lfloor>y\<rfloor>"
      using rne_cases [of y] by auto
    have "of_int \<lfloor>y\<rfloor> < (of_int b :: real)"
      using d assms by linarith
    then have "\<lfloor>y\<rfloor> < b" by simp
    with r show ?thesis by simp
  qed
qed

lemma rne_mono:
  assumes "x \<le> y"
  shows "rne x \<le> rne y"
proof -
  have fm: "\<lfloor>x\<rfloor> \<le> \<lfloor>y\<rfloor>"
    using assms by (rule floor_mono)
  show ?thesis
  proof (cases "\<lfloor>x\<rfloor> = \<lfloor>y\<rfloor>")
    case True
    then show ?thesis
      using assms unfolding rne_def Let_def by auto
  next
    case False
    with fm have "\<lfloor>x\<rfloor> + 1 \<le> \<lfloor>y\<rfloor>" by simp
    moreover have "rne x \<le> \<lfloor>x\<rfloor> + 1"
      using rne_cases [of x] by auto
    moreover have "\<lfloor>y\<rfloor> \<le> rne y"
      using rne_cases [of y] by auto
    ultimately show ?thesis by linarith
  qed
qed

lemma rne_minus: "rne (- y) = - rne y"
proof (cases "y \<in> \<int>")
  case True
  then obtain n where "y = of_int n" by (auto elim: Ints_cases)
  then show ?thesis
    by (simp flip: of_int_minus)
next
  case False
  then have "y \<noteq> of_int \<lfloor>y\<rfloor>"
    by (metis Ints_of_int)
  then have f: "\<lfloor>- y\<rfloor> = - \<lfloor>y\<rfloor> - 1"
    by (simp add: floor_minus ceiling_altdef)
  show ?thesis
    unfolding rne_def Let_def f
    by (auto simp: algebra_simps)
qed

lemma expo_ge: "- 126 \<le> expo x"
  by (simp add: expo_def)

lemma expo_normal:
  assumes "2 powr of_int e \<le> \<bar>x\<bar>" and "\<bar>x\<bar> < 2 powr of_int (e + 1)" and "- 126 \<le> e"
  shows "expo x = e"
proof -
  have pos: "0 < \<bar>x\<bar>"
    using assms(1) by (smt (verit) powr_gt_zero)
  have "\<lfloor>log 2 \<bar>x\<bar>\<rfloor> = e"
    using assms(1,2) pos by (simp add: floor_log_eq_powr_iff)
  with assms(3) show ?thesis
    by (simp add: expo_def)
qed

lemma expo_subnormal:
  assumes "x \<noteq> 0" and "\<bar>x\<bar> < 2 powr (- 126)"
  shows "expo x = - 126"
proof -
  have "log 2 \<bar>x\<bar> < - 126"
    using assms by (simp add: log_less_iff)
  then have "\<lfloor>log 2 \<bar>x\<bar>\<rfloor> < - 126"
    by (simp add: floor_less_iff)
  then show ?thesis
    by (simp add: expo_def)
qed

lemma expo_upper:
  assumes "x \<noteq> 0"
  shows "\<bar>x\<bar> < 2 powr of_int (expo x + 1)"
proof -
  have "log 2 \<bar>x\<bar> < of_int (\<lfloor>log 2 \<bar>x\<bar>\<rfloor> + 1)"
    by linarith
  also have "\<dots> \<le> of_int (expo x + 1)"
    by (simp add: expo_def)
  finally show ?thesis
    using assms by (simp add: log_less_iff)
qed

lemma expo_lower:
  assumes "x \<noteq> 0" and "- 126 < expo x"
  shows "2 powr of_int (expo x) \<le> \<bar>x\<bar>"
proof -
  have "expo x = \<lfloor>log 2 \<bar>x\<bar>\<rfloor>"
    using assms(2) by (simp add: expo_def max_def split: if_splits)
  then have "of_int (expo x) \<le> log 2 \<bar>x\<bar>"
    by simp
  then show ?thesis
    using assms(1) by (simp add: le_log_iff)
qed

lemma expo_minus: "expo (- x) = expo x"
  by (simp add: expo_def)

lemma ulp_minus: "ulp (- x) = ulp x"
  by (simp add: ulp_def expo_minus)

lemma ulp_pos: "0 < ulp x"
  by (simp add: ulp_def)

lemma quant_minus: "quant (- x) = - quant x"
  by (simp add: quant_def ulp_minus rne_minus)

lemma quant_repr:
  assumes "x / ulp x = of_int n"
  shows "quant x = x"
proof -
  have "quant x = of_int n * ulp x"
    by (simp add: quant_def assms)
  also have "\<dots> = x"
    using assms ulp_pos [of x] by (simp add: field_simps)
  finally show ?thesis .
qed

lemma ulp_scale: "(2::real) powr of_int e / 2 powr of_int (e - 23) = 2 ^ 23"
proof -
  have "(2::real) powr of_int e / 2 powr of_int (e - 23) = (2::real) powr (of_int e - of_int (e - 23))"
    by (simp add: powr_diff)
  also have "\<dots> = 2 powr 23"
    by simp
  finally show ?thesis by simp
qed

lemma ulp_scale_up: "(2::real) powr of_int (e + 1) / 2 powr of_int (e - 23) = 2 ^ 24"
proof -
  have "(2::real) powr of_int (e + 1) / 2 powr of_int (e - 23) = (2::real) powr (of_int (e + 1) - of_int (e - 23))"
    by (simp only: powr_diff)
  also have "\<dots> = 2 powr 24"
    by simp
  finally show ?thesis by simp
qed

lemma quant_upper:
  assumes "0 < x"
  shows "quant x \<le> 2 powr of_int (expo x + 1)"
proof -
  let ?u = "(2::real) powr of_int (expo x - 23)"
  have "x \<le> 2 powr of_int (expo x + 1)"
    using expo_upper [of x] assms by simp
  then have "x / ?u \<le> 2 powr of_int (expo x + 1) / ?u"
    by (simp add: divide_right_mono)
  then have "x / ?u \<le> of_int (2 ^ 24)"
    by (simp only: ulp_scale_up) simp
  then have "rne (x / ?u) \<le> 2 ^ 24"
    by (rule rne_upper)
  then have "of_int (rne (x / ?u)) * ?u \<le> 2 ^ 24 * ?u"
    by (simp add: mult_right_mono)
  also have "2 ^ 24 * ?u = 2 powr of_int (expo x + 1)"
    using ulp_scale_up [of "expo x"] by (simp add: field_simps)
  finally show ?thesis
    by (simp add: quant_def ulp_def)
qed

lemma quant_lower:
  assumes "2 powr of_int (expo x) \<le> x"
  shows "2 powr of_int (expo x) \<le> quant x"
proof -
  let ?u = "(2::real) powr of_int (expo x - 23)"
  have "2 powr of_int (expo x) / ?u \<le> x / ?u"
    using assms by (simp add: divide_right_mono)
  then have "of_int (2 ^ 23) \<le> x / ?u"
    by (simp only: ulp_scale) simp
  then have "2 ^ 23 \<le> rne (x / ?u)"
    by (rule rne_lower)
  then have r: "(2 ^ 23 :: real) \<le> of_int (rne (x / ?u))"
    by (metis of_int_le_iff of_int_numeral of_int_power)
  have "2 powr of_int (expo x) = 2 ^ 23 * ?u"
    using ulp_scale [of "expo x"] by (simp add: field_simps)
  also have "\<dots> \<le> of_int (rne (x / ?u)) * ?u"
    using r by (intro mult_right_mono) simp_all
  finally show ?thesis
    by (simp add: quant_def ulp_def)
qed

lemma quant_nonneg:
  assumes "0 \<le> x"
  shows "0 \<le> quant x"
proof -
  have "of_int 0 \<le> x / ulp x"
    using assms ulp_pos [of x] by simp
  then have "0 \<le> rne (x / ulp x)"
    by (rule rne_lower)
  then show ?thesis
    using ulp_pos [of x] by (simp add: quant_def)
qed

lemma quant_idem_pos:
  assumes "0 < x" and "0 < quant x"
  shows "quant (quant x) = quant x"
proof -
  let ?e = "expo x" and ?y = "quant x"
  have up: "?y \<le> 2 powr of_int (?e + 1)"
    by (rule quant_upper [OF assms(1)])
  show ?thesis
  proof (cases "?y = 2 powr of_int (?e + 1)")
    case True
    have "expo ?y = ?e + 1"
      using True expo_ge [of x] by (intro expo_normal) simp_all
    then have "ulp ?y = 2 powr of_int (?e + 1 - 23)"
      by (simp add: ulp_def)
    then have "?y / ulp ?y = of_int (2 ^ 23)"
      using ulp_scale [of "?e + 1"] True by simp
    then show ?thesis
      by (rule quant_repr)
  next
    case False
    with up have lt: "?y < 2 powr of_int (?e + 1)" by simp
    have "expo ?y = ?e"
    proof (cases "2 powr of_int ?e \<le> ?y")
      case True
      then show ?thesis
        using lt assms(2) expo_ge [of x] by (intro expo_normal) simp_all
    next
      case False
      have "\<not> 2 powr of_int ?e \<le> x"
        using False quant_lower [of x] by blast
      then have "?e = - 126"
        using expo_lower [of x] expo_ge [of x] assms(1) by force
      with False show ?thesis
        using assms(2) by (simp add: expo_subnormal)
    qed
    then have "ulp ?y = ulp x"
      by (simp add: ulp_def)
    then have "?y / ulp ?y = of_int (rne (x / ulp x))"
      using ulp_pos [of x] by (simp add: quant_def)
    then show ?thesis
      by (rule quant_repr)
  qed
qed

lemma quant_zero: "quant 0 = 0"
  by (simp add: quant_def rne_def)

lemma quant_idem: "quant (quant x) = quant x"
proof (cases "quant x = 0")
  case True
  then show ?thesis by (simp add: quant_zero)
next
  case nz: False
  then have x0: "x \<noteq> 0" by (auto simp: quant_zero)
  show ?thesis
  proof (cases "0 < x")
    case True
    then have "0 < quant x"
      using quant_nonneg [of x] nz by simp
    with True show ?thesis by (rule quant_idem_pos)
  next
    case False
    with x0 have neg: "0 < - x" by simp
    then have "0 < quant (- x)"
      using quant_nonneg [of "- x"] nz by (simp add: quant_minus)
    with neg have "quant (quant (- x)) = quant (- x)" by (rule quant_idem_pos)
    then show ?thesis by (simp add: quant_minus)
  qed
qed

lemma expo_le_127:
  assumes "0 < x" and "x < 2 ^ 128"
  shows "expo x \<le> 127"
proof (rule ccontr)
  assume "\<not> expo x \<le> 127"
  then have e: "128 \<le> expo x" by simp
  then have "(of_int 128 :: real) \<le> of_int (expo x)"
    by (simp only: of_int_le_iff)
  then have "(2::real) powr of_int 128 \<le> 2 powr of_int (expo x)"
    by (intro powr_mono) simp_all
  also have "\<dots> \<le> \<bar>x\<bar>"
    using e assms(1) by (intro expo_lower) simp_all
  finally show False
    using assms by simp
qed

lemma quant_below_overflow:
  assumes "0 < x" and "x < overflow_at"
  shows "quant x < overflow_at"
proof -
  have x128: "x < 2 ^ 128"
    using assms(2) by (simp add: overflow_at_def)
  have e: "expo x \<le> 127"
    by (rule expo_le_127 [OF assms(1) x128])
  show ?thesis
  proof (cases "expo x = 127")
    case True
    have u: "ulp x = 2 ^ 104"
      by (simp add: ulp_def True)
    have "x / ulp x < 2 ^ 24 - 1 / 2"
      using assms(2) by (simp add: u overflow_at_def field_simps)
    moreover have "(of_int (2 ^ 24 - 1) :: real) + 1 / 2 = 2 ^ 24 - 1 / 2"
      by simp
    ultimately have fl: "x / ulp x < of_int (2 ^ 24 - 1) + 1 / 2"
      by (simp only:)
    have "rne (x / ulp x) \<le> 2 ^ 24 - 1"
    proof (cases "rne (x / ulp x) = \<lfloor>x / ulp x\<rfloor>")
      case True
      have "x / ulp x < of_int (2 ^ 24 - 1) + 1"
        using fl by linarith
      then have "\<lfloor>x / ulp x\<rfloor> \<le> 2 ^ 24 - 1"
        by (simp only: floor_le_iff)
      with True show ?thesis by simp
    next
      case False
      then have r: "rne (x / ulp x) = \<lfloor>x / ulp x\<rfloor> + 1"
        and d: "1 / 2 \<le> x / ulp x - of_int \<lfloor>x / ulp x\<rfloor>"
        using rne_cases [of "x / ulp x"] by auto
      have "of_int \<lfloor>x / ulp x\<rfloor> < (of_int (2 ^ 24 - 1) :: real)"
        using d fl by linarith
      then have "\<lfloor>x / ulp x\<rfloor> < 2 ^ 24 - 1"
        by (simp only: of_int_less_iff)
      with r show ?thesis by simp
    qed
    then have "(of_int (rne (x / ulp x)) :: real) \<le> of_int (2 ^ 24 - 1)"
      by (simp only: of_int_le_iff)
    then have "quant x \<le> of_int (2 ^ 24 - 1) * 2 ^ 104"
      unfolding quant_def u by (intro mult_right_mono) simp_all
    then show ?thesis
      by (simp add: overflow_at_def)
  next
    case False
    with e have "expo x + 1 \<le> 127" by simp
    then have "(of_int (expo x + 1) :: real) \<le> of_int 127"
      by (simp only: of_int_le_iff)
    then have "(2::real) powr of_int (expo x + 1) \<le> 2 powr of_int 127"
      by (intro powr_mono) simp_all
    then have "(2::real) powr of_int (expo x + 1) \<le> 2 powr 127"
      by simp
    with quant_upper [OF assms(1)] have "quant x \<le> 2 ^ 127"
      by simp
    then show ?thesis
      by (simp add: overflow_at_def)
  qed
qed

lemma round32_idem:
  assumes "round32 x = Fin y"
  shows "round32 y = Fin y"
proof (cases "y = 0")
  case True
  then show ?thesis by (simp add: round32_def)
next
  case y0: False
  have x0: "x \<noteq> 0"
    using assms y0 by (auto simp: round32_def)
  have bounds: "x < overflow_at" "- overflow_at < x" and y: "y = quant x"
    using assms x0 by (auto simp: round32_def split: if_splits)
  have "\<bar>quant x\<bar> < overflow_at"
  proof (cases "0 < x")
    case True
    then show ?thesis
      using quant_below_overflow [of x] quant_nonneg [of x] bounds by simp
  next
    case False
    with x0 have "0 < - x" by simp
    then show ?thesis
      using quant_below_overflow [of "- x"] quant_nonneg [of "- x"] bounds
      by (simp add: quant_minus)
  qed
  then have "\<not> overflow_at \<le> quant x" and "\<not> quant x \<le> - overflow_at"
    by linarith+
  then show ?thesis
    using y0 by (simp add: round32_def y quant_idem)
qed

lemma round32_exact:
  assumes "(2::real) powr of_int e \<le> \<bar>x\<bar>" and "\<bar>x\<bar> < 2 powr of_int (e + 1)"
    and "- 126 \<le> e" and "e \<le> 127"
    and "x / 2 powr of_int (e - 23) = of_int n"
  shows "round32 x = Fin x"
proof -
  let ?u = "(2::real) powr of_int (e - 23)"
  have e: "expo x = e"
    by (rule expo_normal [OF assms(1-3)])
  have u: "ulp x = ?u"
    by (simp add: ulp_def e)
  have q: "quant x = x"
    by (rule quant_repr [of x n]) (simp only: u assms(5))
  have x0: "x \<noteq> 0"
    using assms(1) by (smt (verit) powr_gt_zero)
  have xn: "x = of_int n * ?u"
    using assms(5) by (simp add: field_simps)
  have "\<bar>x\<bar> / ?u < 2 powr of_int (e + 1) / ?u"
    using assms(2) by (simp add: divide_strict_right_mono)
  then have "\<bar>x / ?u\<bar> < of_int (2 ^ 24)"
    by (simp only: ulp_scale_up) simp
  then have "\<bar>of_int n :: real\<bar> < of_int (2 ^ 24)"
    by (simp only: assms(5))
  then have "\<bar>n\<bar> < 2 ^ 24"
    by (simp only: of_int_abs [symmetric] of_int_less_iff)
  then have "\<bar>n\<bar> \<le> 2 ^ 24 - 1"
    by simp
  then have n: "\<bar>of_int n :: real\<bar> \<le> of_int (2 ^ 24 - 1)"
    by (simp only: of_int_abs [symmetric] of_int_le_iff)
  have "(of_int (e - 23) :: real) \<le> of_int 104"
    using assms(4) by simp
  then have "?u \<le> 2 powr of_int 104"
    by (intro powr_mono) simp_all
  then have u104: "?u \<le> 2 ^ 104"
    by simp
  have "\<bar>x\<bar> = \<bar>of_int n\<bar> * ?u"
    by (subst xn) (simp add: abs_mult)
  also have "\<dots> \<le> of_int (2 ^ 24 - 1) * 2 ^ 104"
    using n u104 by (intro mult_mono) simp_all
  also have "\<dots> < overflow_at"
    by (simp add: overflow_at_def)
  finally have "\<not> overflow_at \<le> x" and "\<not> x \<le> - overflow_at"
    by linarith+
  then show ?thesis
    using x0 by (simp add: round32_def q)
qed

lemma round32_zero: "round32 0 = Fin 0"
  by (simp add: round32_def)

lemma round32_one: "round32 1 = Fin 1"
  by (rule round32_exact [of 0 _ "2 ^ 23"]) (simp_all add: powr_neg_numeral)

lemma round32_eval:
  assumes "(2::real) powr of_int e \<le> \<bar>x\<bar>" and "\<bar>x\<bar> < 2 powr of_int (e + 1)"
    and "- 126 \<le> e" and "\<bar>x\<bar> < overflow_at"
    and "rne (x / 2 powr of_int (e - 23)) = n"
  shows "round32 x = Fin (of_int n * 2 powr of_int (e - 23))"
proof -
  have e: "expo x = e"
    by (rule expo_normal [OF assms(1-3)])
  have x0: "x \<noteq> 0"
    using assms(1) by (smt (verit) powr_gt_zero)
  have "\<not> overflow_at \<le> x" and "\<not> x \<le> - overflow_at"
    using assms(4) by linarith+
  then show ?thesis
    using x0 assms(5) by (simp add: round32_def quant_def ulp_def e)
qed

lemma expo_mono:
  assumes "0 < x" and "x \<le> y"
  shows "expo x \<le> expo y"
proof -
  have "log 2 \<bar>x\<bar> \<le> log 2 \<bar>y\<bar>"
    using assms by simp
  then have "\<lfloor>log 2 \<bar>x\<bar>\<rfloor> \<le> \<lfloor>log 2 \<bar>y\<bar>\<rfloor>"
    by (rule floor_mono)
  then show ?thesis
    by (simp add: expo_def)
qed

lemma quant_mono_pos:
  assumes "0 < x" and "x \<le> y"
  shows "quant x \<le> quant y"
proof (cases "expo x = expo y")
  case True
  then have u: "ulp y = ulp x"
    by (simp add: ulp_def)
  have "x / ulp x \<le> y / ulp x"
    using assms(2) ulp_pos [of x] by (simp add: divide_right_mono)
  then have "rne (x / ulp x) \<le> rne (y / ulp x)"
    by (rule rne_mono)
  then have "(of_int (rne (x / ulp x)) :: real) \<le> of_int (rne (y / ulp x))"
    by (simp only: of_int_le_iff)
  then show ?thesis
    unfolding quant_def u using ulp_pos [of x] by (intro mult_right_mono) simp_all
next
  case False
  with expo_mono [OF assms] have lt: "expo x + 1 \<le> expo y" by simp
  then have "(of_int (expo x + 1) :: real) \<le> of_int (expo y)"
    by (simp only: of_int_le_iff)
  then have "(2::real) powr of_int (expo x + 1) \<le> 2 powr of_int (expo y)"
    by (intro powr_mono) simp_all
  moreover have "2 powr of_int (expo y) \<le> quant y"
  proof (rule quant_lower)
    have "- 126 < expo y"
      using lt expo_ge [of x] by simp
    then show "2 powr of_int (expo y) \<le> y"
      using expo_lower [of y] assms by simp
  qed
  ultimately show ?thesis
    using quant_upper [OF assms(1)] by linarith
qed

section \<open>Unfolding the float32 body\<close>

lemmas body32_struct =
  from_importance_weights32_def ranks_ok32_def vs_out32_def vs_minus_v_xs32_def deltas32_def
  residual32_def values_t_plus_1_32_def cs32_def clipped_rhos32_def rhos32_def log_rhos32_def
  pg_advantages_out32_def stack32_def row32_def from1_def concat32_def clip32_def mexp32_def
  bop_def bop1_def bvec_def pick_def bdim_def then_do_def mat_of_def fle_def lowest32_def fsub_def

lemmas body32_defs = body32_struct clip_elem_def

lemma round32_1e8: "round32 (- 100000000) = Fin (- 100000000)"
  by (rule round32_exact [of 26 _ "- 12500000"]) (simp_all add: powr_neg_numeral)

lemma round32_99999999: "round32 (- 99999999) = Fin (- 100000000)"
  using round32_eval [of 26 "- 99999999" "- 12500000"]
  by (simp add: overflow_at_def rne_def)

section \<open>Tables of float32 values\<close>

lemma then_do_Inr [simp]: "then_do (Inr x) f = f x"
  by (simp add: then_do_def)

lemma then_do_Inl [simp]: "then_do (Inl e) f = Inl e"
  by (simp add: then_do_def)

lemma bdim_same [simp]: "bdim n n = Inr n"
  by (simp add: bdim_def)

lemma pick_nth: "i < length xs \<Longrightarrow> pick xs i = xs ! i"
  by (auto simp: pick_def)

lemma tabf_cong: "(\<And>t b. t < T \<Longrightarrow> b < B \<Longrightarrow> f t b = g t b) \<Longrightarrow> tabf T B f = tabf T B g"
  by (simp add: tabf_def)

lemma mtab_cong: "(\<And>t b. t < T \<Longrightarrow> b < B \<Longrightarrow> f t b = g t b) \<Longrightarrow> mtab T B f = mtab T B g"
  using tabf_cong [of T B f g] by (simp add: mtab_def)

lemma nth_tabf: "t < T \<Longrightarrow> b < B \<Longrightarrow> tabf T B f ! t ! b = f t b"
  by (simp add: tabf_def)

lemma length_tabf [simp]: "length (tabf T B f) = T"
  by (simp add: tabf_def)

lemma bvec_map: "bvec f B (map g [0..<B]) (map h [0..<B]) = map (\<lambda>b. f (g b) (h b)) [0..<B]"
  by (simp add: bvec_def pick_nth)

lemma bop1_map:
  "bop1 f (map g [0..<B]) (map h [0..<B]) = Inr (map (\<lambda>b. f (g b) (h b)) [0..<B])"
  by (simp add: bop1_def bvec_map)

lemma bop_mtab:
  "bop f (mtab T B g) (mtab T B h) = Inr (mtab T B (\<lambda>t b. f (g t b) (h t b)))"
  by (simp add: bop_def mtab_def tabf_def pick_nth bvec_map)

lemma mexp32_mtab: "mexp32 (mtab T B g) = mtab T B (\<lambda>t b. fexp (g t b))"
  by (simp add: mexp32_def mtab_def tabf_def comp_def)

lemma clip32_mtab:
  "fle lowest32 m \<Longrightarrow> clip32 (mtab T B g) m = Inr (mtab T B (\<lambda>t b. clip_elem m (g t b)))"
  by (simp add: clip32_def mtab_def tabf_def comp_def)

lemma tabf_of_rows:
  assumes "length xs = T" and "list_all (\<lambda>r. length r = B) xs"
  shows "xs = tabf T B (\<lambda>t b. xs ! t ! b)"
proof (rule nth_equalityI)
  show "length xs = length (tabf T B (\<lambda>t b. xs ! t ! b))"
    using assms by simp
next
  fix t assume t: "t < length xs"
  then have "length (xs ! t) = B"
    using assms(2) by (simp add: list_all_length)
  then have "xs ! t = map (\<lambda>b. xs ! t ! b) [0..<B]"
    by (auto intro: nth_equalityI)
  then show "xs ! t = tabf T B (\<lambda>t b. xs ! t ! b) ! t"
    using t assms(1) by (simp add: tabf_def)
qed

lemma mat_of_mtab:
  assumes "has_shape32 T B x"
  shows "mat_of x = mtab T B (\<lambda>t b. rows32 x ! t ! b)"
proof -
  have r: "rows32 x = tabf T B (\<lambda>t b. rows32 x ! t ! b)"
    using assms unfolding has_shape32_def by (intro tabf_of_rows) simp_all
  have nc: "prod_list (tl (shape32 x)) = B"
    using assms by (simp add: has_shape32_def)
  show ?thesis
    unfolding mat_of_def mtab_def
    by (rule arg_cong2 [of _ _ _ _ "\<lambda>a b. \<lparr> ncols = a, mrows = b \<rparr>", OF nc r])
qed

lemma concat32_mtab:
  assumes "1 \<le> T" and "length v = B"
  shows "concat32 (from1 (mtab T B f)) v
           = Inr (mtab T B (\<lambda>t b. if t + 1 < T then f (t + 1) b else v ! b))"
proof -
  have "tl (tabf T B f) @ [v] = tabf T B (\<lambda>t b. if t + 1 < T then f (t + 1) b else v ! b)"
  proof (rule nth_equalityI)
    show "length (tl (tabf T B f) @ [v])
            = length (tabf T B (\<lambda>t b. if t + 1 < T then f (t + 1) b else v ! b))"
      using assms by simp
  next
    fix t assume "t < length (tl (tabf T B f) @ [v])"
    then have t: "t < T"
      using assms by simp
    have v: "v = map (\<lambda>b. v ! b) [0..<B]"
      using assms(2) by (auto intro: nth_equalityI)
    show "(tl (tabf T B f) @ [v]) ! t
            = tabf T B (\<lambda>t b. if t + 1 < T then f (t + 1) b else v ! b) ! t"
    proof (cases "t + 1 < T")
      case True
      then have "t < T - 1" by arith
      with True show ?thesis
        by (simp add: tabf_def nth_append nth_tl)
    next
      case False
      with t have "t = T - 1" by simp
      with t v show ?thesis
        by (simp add: tabf_def nth_append)
    qed
  qed
  then show ?thesis
    using assms by (simp add: concat32_def from1_def mtab_def)
qed

lemma stack32_tabf:
  assumes "1 \<le> T"
  shows "stack32 (tabf T B f) = Inr (mtab T B f)"
proof -
  obtain r rs where c: "tabf T B f = r # rs"
    using assms by (cases "tabf T B f") (auto simp: tabf_def)
  have "r = tabf T B f ! 0"
    by (simp add: c)
  then have r: "length r = B"
    using assms by (simp add: tabf_def)
  have "list_all (\<lambda>x. length x = B) (tabf T B f)"
    by (simp add: tabf_def list_all_iff)
  then have "list_all (\<lambda>x. length x = length r) (r # rs)"
    by (simp only: r c)
  then show ?thesis
    unfolding stack32_def mtab_def c using r by simp
qed

lemma scan_loop32_closed:
  assumes "n \<le> T"
    and "\<forall>k<n. \<forall>b<B. fadd (ds k b) (fmul (fmul (dis k b) (c k b)) (g (Suc k) b)) = g k b"
    and "acc = map (g n) [0..<B]"
  shows "scan_loop32 n (mtab T B ds) (mtab T B dis) (mtab T B c) (acc, res)
           = Inr (map (g 0) [0..<B], res @ rev (map (\<lambda>t. map (g t) [0..<B]) [0..<n]))"
  using assms
proof (induction n arbitrary: acc res)
  case 0
  then show ?case by simp
next
  case (Suc n)
  let ?a = "map (g n) [0..<B]"
  have n: "n < T" using Suc.prems(1) by simp
  have rows: "row32 (mtab T B ds) n = Inr (map (ds n) [0..<B])"
    "row32 (mtab T B dis) n = Inr (map (dis n) [0..<B])"
    "row32 (mtab T B c) n = Inr (map (c n) [0..<B])"
    using n by (simp_all add: row32_def mtab_def tabf_def)
  have step: "map (\<lambda>b. fadd (ds n b) (fmul (fmul (dis n b) (c n b)) (g (Suc n) b))) [0..<B] = ?a"
    using Suc.prems(2) by simp
  have IH: "scan_loop32 n (mtab T B ds) (mtab T B dis) (mtab T B c) (?a, res @ [?a])
          = Inr (map (g 0) [0..<B], (res @ [?a]) @ rev (map (\<lambda>t. map (g t) [0..<B]) [0..<n]))"
    by (rule Suc.IH) (use Suc.prems in simp_all)
  show ?case
    by (simp add: rows Suc.prems(3) bop1_map step IH)
qed

section \<open>The float32 locals as tables\<close>

lemma valid32_mats:
  assumes "valid_input32 I"
  shows "mat_of (behaviour_actions_log_probs32 I)
           = mtab (time_steps32 I) (batch_size32 I) (\<lambda>t b. rows32 (behaviour_actions_log_probs32 I) ! t ! b)"
    and "mat_of (target_actions_log_probs32 I)
           = mtab (time_steps32 I) (batch_size32 I) (\<lambda>t b. rows32 (target_actions_log_probs32 I) ! t ! b)"
    and "mat_of (discounts32 I)
           = mtab (time_steps32 I) (batch_size32 I) (\<lambda>t b. rows32 (discounts32 I) ! t ! b)"
    and "mat_of (rewards32 I)
           = mtab (time_steps32 I) (batch_size32 I) (\<lambda>t b. rows32 (rewards32 I) ! t ! b)"
    and "mat_of (values32 I)
           = mtab (time_steps32 I) (batch_size32 I) (\<lambda>t b. rows32 (values32 I) ! t ! b)"
  using assms unfolding valid_input32_def by (simp_all add: mat_of_mtab)

lemma rhos32_closed:
  assumes "valid_input32 I"
  shows "rhos32 I = Inr (mtab (time_steps32 I) (batch_size32 I) (rho32 I))"
  unfolding rhos32_def log_rhos32_def valid32_mats [OF assms]
  by (simp add: bop_mtab mexp32_mtab rho32_def [abs_def])

lemma clipped_rhos32_closed:
  assumes "valid_input32 I" and "threshold_ok c"
  shows "clipped_rhos32 I c
           = Inr (mtab (time_steps32 I) (batch_size32 I) (\<lambda>t b. clipped32 c (rho32 I t b)))"
  using assms(2)
  by (cases c)
    (simp_all add: clipped_rhos32_def rhos32_closed [OF assms(1)] clipped32_def threshold_ok_def
      clip32_mtab)

lemma lowest_le_one: "fle lowest32 (Fin 1)"
  by (simp add: fle_def lowest32_def)

lemma cs32_closed:
  assumes "valid_input32 I"
  shows "cs32 I = Inr (mtab (time_steps32 I) (batch_size32 I)
                         (\<lambda>t b. clip_elem (Fin 1) (rho32 I t b)))"
  by (simp add: cs32_def rhos32_closed [OF assms] clip32_mtab lowest_le_one)

lemma shift32_closed:
  assumes "valid_input32 I"
  shows "concat32 (from1 (mtab (time_steps32 I) (batch_size32 I) f)) (elems32 (bootstrap_value32 I))
           = Inr (mtab (time_steps32 I) (batch_size32 I)
                    (next32 I (tabf (time_steps32 I) (batch_size32 I) f)))"
proof -
  have T: "1 \<le> time_steps32 I" and B: "length (elems32 (bootstrap_value32 I)) = batch_size32 I"
    using assms by (simp_all add: valid_input32_def batch_size32_def)
  show ?thesis
    unfolding concat32_mtab [OF T B]
    by (simp, rule mtab_cong) (simp add: next32_def nth_tabf)
qed

lemma residual32_closed:
  assumes "valid_input32 I"
  shows "residual32 I (mtab (time_steps32 I) (batch_size32 I) (next32 I xs))
           = Inr (mtab (time_steps32 I) (batch_size32 I) (td32 I xs))"
  unfolding residual32_def valid32_mats [OF assms]
  by (simp add: bop_mtab td32_def [abs_def])

lemma values_rows32:
  assumes "valid_input32 I"
  shows "rows32 (values32 I)
           = tabf (time_steps32 I) (batch_size32 I) (\<lambda>t b. rows32 (values32 I) ! t ! b)"
  using assms unfolding valid_input32_def has_shape32_def by (intro tabf_of_rows) simp_all

lemma values_t_plus_1_32_closed:
  assumes "valid_input32 I"
  shows "values_t_plus_1_32 I
           = Inr (mtab (time_steps32 I) (batch_size32 I) (next32 I (rows32 (values32 I))))"
proof -
  have "values_t_plus_1_32 I
          = Inr (mtab (time_steps32 I) (batch_size32 I)
                   (next32 I (tabf (time_steps32 I) (batch_size32 I)
                                (\<lambda>t b. rows32 (values32 I) ! t ! b))))"
    unfolding values_t_plus_1_32_def valid32_mats [OF assms] by (rule shift32_closed [OF assms])
  then show ?thesis
    by (simp only: values_rows32 [OF assms, symmetric])
qed

lemma deltas32_closed:
  assumes "valid_input32 I" and "threshold_ok c"
  shows "deltas32 I c = Inr (mtab (time_steps32 I) (batch_size32 I) (delta32 I c))"
  by (simp add: deltas32_def clipped_rhos32_closed [OF assms] values_t_plus_1_32_closed [OF assms(1)]
      residual32_closed [OF assms(1)] bop_mtab delta32_def [abs_def])

lemma acc32_end: "acc32 I c (time_steps32 I) b = Fin 0"
  by (simp add: acc32.simps [of I c "time_steps32 I"])

lemma vs_minus_v_xs32_closed:
  assumes "valid_input32 I" and "threshold_ok c"
  shows "vs_minus_v_xs32 I c = Inr (mtab (time_steps32 I) (batch_size32 I) (acc32 I c))"
proof -
  let ?T = "time_steps32 I" and ?B = "batch_size32 I"
  have T: "1 \<le> ?T"
    using assms(1) by (simp add: valid_input32_def)
  have loop: "scan_loop32 ?T (mtab ?T ?B (delta32 I c))
                 (mtab ?T ?B (\<lambda>t b. rows32 (discounts32 I) ! t ! b))
                 (mtab ?T ?B (\<lambda>t b. clip_elem (Fin 1) (rho32 I t b)))
                 (map (\<lambda>_. Fin 0) (elems32 (bootstrap_value32 I)), [])
          = Inr (map (acc32 I c 0) [0..<?B],
                 [] @ rev (map (\<lambda>t. map (acc32 I c t) [0..<?B]) [0..<?T]))"
  proof (rule scan_loop32_closed)
    show "?T \<le> ?T" by simp
    show "\<forall>k<?T. \<forall>b<?B.
            fadd (delta32 I c k b)
              (fmul (fmul (rows32 (discounts32 I) ! k ! b) (clip_elem (Fin 1) (rho32 I k b)))
                 (acc32 I c (Suc k) b)) = acc32 I c k b"
      by (simp add: acc32.simps [of I c "k" for k, unfolded Suc_eq_plus1 [symmetric]])
    show "map (\<lambda>_. Fin 0) (elems32 (bootstrap_value32 I)) = map (acc32 I c ?T) [0..<?B]"
      by (rule nth_equalityI) (simp_all add: batch_size32_def acc32_end)
  qed
  have "stack32 (rev (rev (map (\<lambda>t. map (acc32 I c t) [0..<?B]) [0..<?T])))
          = Inr (mtab ?T ?B (acc32 I c))"
    using stack32_tabf [OF T, of ?B "acc32 I c"] by (simp add: tabf_def)
  then show ?thesis
    unfolding vs_minus_v_xs32_def deltas32_closed [OF assms] cs32_closed [OF assms(1)]
      valid32_mats [OF assms(1)]
    by (simp add: loop [unfolded time_steps32_def] time_steps32_def)
qed

lemma vs_out32_closed:
  assumes "valid_input32 I" and "threshold_ok c"
  shows "vs_out32 I c = Inr (mtab (time_steps32 I) (batch_size32 I)
                               (\<lambda>t b. fadd (acc32 I c t b) (rows32 (values32 I) ! t ! b)))"
  unfolding vs_out32_def vs_minus_v_xs32_closed [OF assms] valid32_mats [OF assms(1)]
  by (simp add: bop_mtab)

lemma pg_advantages_out32_closed:
  assumes "valid_input32 I" and "threshold_ok c2"
  shows "pg_advantages_out32 I (mtab (time_steps32 I) (batch_size32 I) f) c2
           = Inr (mtab (time_steps32 I) (batch_size32 I)
                    (\<lambda>t b. fmul (clipped32 c2 (rho32 I t b))
                              (td32 I (tabf (time_steps32 I) (batch_size32 I) f) t b)))"
  by (simp add: pg_advantages_out32_def shift32_closed [OF assms(1)] clipped_rhos32_closed [OF assms]
      residual32_closed [OF assms(1)] bop_mtab)

lemma valid32_ranks_ok: "valid_input32 I \<Longrightarrow> ranks_ok32 I"
  by (simp add: valid_input32_def has_shape32_def ranks_ok32_def)

lemma returns32_on_valid:
  assumes "valid_input32 I" and "threshold_ok c1" and "threshold_ok c2"
  shows "from_importance_weights32 I c1 c2
           = Inr \<lparr> vs32 = vs_entries I c1,
                   pg_advantages32 = tabf (time_steps32 I) (batch_size32 I)
                      (\<lambda>t b. fmul (clipped32 c2 (rho32 I t b)) (td32 I (vs_entries I c1) t b)) \<rparr>"
  by (simp add: from_importance_weights32_def valid32_ranks_ok [OF assms(1)]
      vs_out32_closed [OF assms(1,2)] pg_advantages_out32_closed [OF assms(1,3)] vs_entries_def)
    (simp add: mtab_def)

section \<open>Finite float32 values\<close>

lemma closed_round32: "closed32 (round32 x)"
  by (cases "round32 x") (auto simp: closed32_def dest: round32_idem)

lemma closed_fadd: "closed32 (fadd x y)"
  by (cases x; cases y) (simp_all add: closed_round32, simp_all add: closed32_def)

lemma closed_fmul: "closed32 (fmul x y)"
  by (cases x; cases y) (simp_all add: closed_round32, simp_all add: closed32_def)

lemma closed_fsub: "closed32 (fsub x y)"
  by (simp add: fsub_def closed_fadd)

lemma fmul_one_left: "closed32 x \<Longrightarrow> fmul (Fin 1) x = x"
  by (cases x) (simp_all add: closed32_def)

lemma fmul_one_right: "closed32 x \<Longrightarrow> fmul x (Fin 1) = x"
  by (cases x) (simp_all add: closed32_def)

lemma fadd_zero_right: "closed32 x \<Longrightarrow> fadd x (Fin 0) = x"
  by (cases x) (simp_all add: closed32_def)

lemma fadd_zero_left: "closed32 x \<Longrightarrow> fadd (Fin 0) x = x"
  by (cases x) (simp_all add: closed32_def)

lemma fmul_zero_right [simp]: "fmul (Fin a) (Fin 0) = Fin 0"
  by (simp add: round32_zero)

lemma fmul_zero_left [simp]: "fmul (Fin 0) (Fin a) = Fin 0"
  by (simp add: round32_zero)

lemma fadd_zero_zero [simp]: "fadd (Fin 0) (Fin 0) = Fin 0"
  by (simp add: round32_zero)

lemma finite_below_overflow:
  assumes "round32 a = Fin a"
  shows "\<bar>a\<bar> < overflow_at"
proof (cases "a = 0")
  case True
  then show ?thesis by (simp add: overflow_at_def)
next
  case False
  with assms show ?thesis
    by (auto simp: round32_def split: if_splits)
qed

lemma round32_fin_if_small:
  assumes "\<bar>x\<bar> < overflow_at"
  shows "\<exists>q. round32 x = Fin q"
proof -
  have "\<not> overflow_at \<le> x" and "\<not> x \<le> - overflow_at"
    using assms by linarith+
  then show ?thesis
    by (simp add: round32_def)
qed

lemma fmul_unit_interval:
  assumes "round32 g = Fin g" and "0 \<le> c" and "c \<le> 1"
  shows "\<exists>q. fmul (Fin g) (Fin c) = Fin q"
proof -
  have "\<bar>g * c\<bar> \<le> \<bar>g\<bar>"
    using assms(2,3) by (simp add: abs_mult mult_left_le)
  then have "\<bar>g * c\<bar> < overflow_at"
    using finite_below_overflow [OF assms(1)] by linarith
  then show ?thesis
    by (simp add: round32_fin_if_small)
qed

lemma round32_pos_cases:
  assumes "0 < x"
  shows "round32 x = PInf \<or> (\<exists>q\<ge>0. round32 x = Fin q)"
proof -
  have "\<not> x \<le> - overflow_at"
    using assms by (simp add: overflow_at_def)
  then show ?thesis
    using assms quant_nonneg [of x] by (auto simp: round32_def)
qed

lemma round32_not_NaN [simp]: "round32 x \<noteq> NaN"
  by (simp add: round32_def)

lemma fexp_fin_cases: "fexp (Fin y) = PInf \<or> (\<exists>q\<ge>0. fexp (Fin y) = Fin q)"
  using round32_pos_cases [of "exp y"] by simp

lemma rho_cases:
  "fexp (fsub (Fin a) (Fin b)) = PInf \<or> (\<exists>q\<ge>0. fexp (fsub (Fin a) (Fin b)) = Fin q)"
proof (cases "round32 (a - b)")
  case (Fin y)
  then show ?thesis
    using fexp_fin_cases [of y] by (simp add: fsub_def)
qed (simp_all add: fsub_def)

lemma clip_one_cases:
  assumes "r = PInf \<or> (\<exists>q\<ge>0. r = Fin q)"
  shows "\<exists>c. clip_elem (Fin 1) r = Fin c \<and> 0 \<le> c \<and> c \<le> 1"
  using assms by (auto simp: clip_elem_def lowest32_def)

section \<open>Rounding integers\<close>

lemma round32_minus: "round32 (- x) = fneg (round32 x)"
  by (auto simp: round32_def quant_minus overflow_at_def)

lemma expo_one: "expo 1 = 0"
  by (rule expo_normal) simp_all

lemma round32_of_int_pos:
  assumes "0 < n" and "n \<le> 2 ^ 24"
  shows "round32 (of_int n) = Fin (of_int n)"
proof -
  let ?x = "real_of_int n" and ?e = "expo (real_of_int n)"
  have x1: "1 \<le> ?x" using assms(1) by simp
  have e0: "0 \<le> ?e"
    using expo_mono [of 1 ?x] x1 by (simp add: expo_one)
  have lo: "2 powr of_int ?e \<le> \<bar>?x\<bar>"
    using e0 x1 by (intro expo_lower) simp_all
  have hi: "\<bar>?x\<bar> < 2 powr of_int (?e + 1)"
    using x1 by (intro expo_upper) simp
  have x24: "?x \<le> 2 ^ 24"
    using assms(2) by (metis of_int_le_iff of_int_numeral of_int_power)
  have e24: "?e \<le> 24"
  proof (rule ccontr)
    assume "\<not> ?e \<le> 24"
    then have "(of_int 25 :: real) \<le> of_int ?e"
      by simp
    then have "(2::real) powr of_int 25 \<le> 2 powr of_int ?e"
      by (intro powr_mono) simp_all
    with lo x24 x1 show False by simp
  qed
  have "\<exists>m. ?x / 2 powr of_int (?e - 23) = of_int m"
  proof (cases "?e = 24")
    case True
    have "(2::real) powr of_int 24 \<le> ?x"
      using lo x1 True by simp
    with x24 have x: "?x = 2 ^ 24" by simp
    have u: "(2::real) powr of_int (?e - 23) = 2"
      by (simp only: True) simp
    have "?x / 2 powr of_int (?e - 23) = of_int (2 ^ 23)"
      unfolding u by (simp only: x) simp
    then show ?thesis ..
  next
    case False
    with e24 have le: "?e \<le> 23" by simp
    define k where "k = nat (23 - ?e)"
    have k: "of_int (?e - 23) = - real k"
      using le by (simp add: k_def)
    have "?x / 2 powr of_int (?e - 23) = ?x * 2 ^ k"
      unfolding k by (simp add: powr_minus powr_realpow field_simps)
    also have "\<dots> = of_int (n * 2 ^ k)"
      by simp
    finally show ?thesis ..
  qed
  then obtain m where m: "?x / 2 powr of_int (?e - 23) = of_int m" ..
  have e127: "?e \<le> 127"
    using e24 by simp
  show ?thesis
    by (rule round32_exact [OF lo hi _ e127 m]) (use e0 in simp)
qed

lemma round32_of_int:
  assumes "\<bar>n\<bar> \<le> 2 ^ 24"
  shows "round32 (of_int n) = Fin (of_int n)"
proof (cases "n = 0")
  case True
  then show ?thesis by (simp add: round32_zero)
next
  case nz: False
  show ?thesis
  proof (cases "0 < n")
    case True
    then show ?thesis
      using assms by (intro round32_of_int_pos) simp_all
  next
    case False
    with nz have "0 < - n" and "- n \<le> 2 ^ 24"
      using assms by simp_all
    then have "round32 (of_int (- n)) = Fin (of_int (- n))"
      by (rule round32_of_int_pos)
    then have "fneg (round32 (of_int n)) = Fin (- of_int n)"
      by (simp add: round32_minus)
    then show ?thesis
      by (cases "round32 (real_of_int n)") simp_all
  qed
qed

lemma round32_numeral:
  "numeral k \<le> (16777216::int) \<Longrightarrow> round32 (numeral k) = Fin (numeral k)"
  using round32_of_int [of "numeral k"] by simp

lemma round32_neg_numeral:
  "numeral k \<le> (16777216::int) \<Longrightarrow> round32 (- numeral k) = Fin (- numeral k)"
  using round32_of_int [of "- numeral k"] by simp

lemma round32_neg_one: "round32 (- 1) = Fin (- 1)"
  using round32_of_int [of "- 1"] by simp

lemmas round32_small =
  round32_zero round32_one round32_neg_one round32_numeral round32_neg_numeral

lemma exp_100_overflows: "overflow_at \<le> exp (100::real)"
proof -
  have "(5 / 2 :: real) \<le> exp 1"
    using exp_lower_Taylor_quadratic [of "1::real"] by simp
  then have "(5 / 2 :: real) ^ 100 \<le> exp 1 ^ 100"
    by (intro power_mono) simp_all
  also have "exp (1::real) ^ 100 = exp 100"
    using exp_of_nat_mult [of 100 "1::real"] by simp
  finally have "(5 / 2 :: real) ^ 100 \<le> exp 100" .
  moreover have "overflow_at \<le> (5 / 2 :: real) ^ 100"
    by (simp add: overflow_at_def power_divide)
  ultimately show ?thesis by linarith
qed

lemma round32_exp_100: "round32 (exp 100) = PInf"
  using exp_100_overflows by (simp add: round32_def)

section \<open>The accumulator at a fixed point\<close>

lemma entry32:
  assumes "has_shape32 T B x" and "finite_tensor x" and "t < T" and "b < B"
  shows "\<exists>a. rows32 x ! t ! b = Fin a \<and> round32 a = Fin a"
proof -
  have "finite32 (rows32 x ! t ! b)"
    using assms by (simp add: has_shape32_def finite_tensor_def list_all_length)
  then show ?thesis
    by (cases "rows32 x ! t ! b") (simp_all add: finite32_def closed32_def)
qed

lemma bootstrap_entry32:
  assumes "finite_inputs32 I" and "b < batch_size32 I"
  shows "\<exists>a. elems32 (bootstrap_value32 I) ! b = Fin a \<and> round32 a = Fin a"
proof -
  have "finite32 (elems32 (bootstrap_value32 I) ! b)"
    using assms by (simp add: finite_inputs32_def batch_size32_def list_all_length)
  then show ?thesis
    by (cases "elems32 (bootstrap_value32 I) ! b") (simp_all add: finite32_def closed32_def)
qed

lemma cs_entry32:
  assumes "valid_input32 I" and "finite_inputs32 I" and "t < time_steps32 I" and "b < batch_size32 I"
  shows "\<exists>c. clip_elem (Fin 1) (rho32 I t b) = Fin c \<and> 0 \<le> c \<and> c \<le> 1"
proof -
  obtain p where p: "rows32 (target_actions_log_probs32 I) ! t ! b = Fin p"
    using entry32 [of _ _ "target_actions_log_probs32 I" t b] assms
    by (auto simp: valid_input32_def finite_inputs32_def)
  obtain q where q: "rows32 (behaviour_actions_log_probs32 I) ! t ! b = Fin q"
    using entry32 [of _ _ "behaviour_actions_log_probs32 I" t b] assms
    by (auto simp: valid_input32_def finite_inputs32_def)
  show ?thesis
    unfolding rho32_def p q by (rule clip_one_cases) (rule rho_cases)
qed

lemma discount_times_cs32:
  assumes "valid_input32 I" and "finite_inputs32 I" and "t < time_steps32 I" and "b < batch_size32 I"
  shows "\<exists>q. fmul (rows32 (discounts32 I) ! t ! b) (clip_elem (Fin 1) (rho32 I t b)) = Fin q"
proof -
  obtain g where g: "rows32 (discounts32 I) ! t ! b = Fin g" "round32 g = Fin g"
    using entry32 [of _ _ "discounts32 I" t b] assms
    by (auto simp: valid_input32_def finite_inputs32_def)
  obtain c where c: "clip_elem (Fin 1) (rho32 I t b) = Fin c" "0 \<le> c" "c \<le> 1"
    using cs_entry32 [OF assms] by blast
  show ?thesis
    unfolding g c by (rule fmul_unit_interval [OF g(2) c(2,3)])
qed

lemma acc32_fixed_point:
  assumes "valid_input32 I" and "finite_inputs32 I"
    and "\<forall>t<time_steps32 I. \<forall>b<batch_size32 I. td32 I (rows32 (values32 I)) t b = Fin 0"
    and "\<forall>t<time_steps32 I. \<forall>b<batch_size32 I. is_fin (clipped32 c (rho32 I t b))"
    and "b < batch_size32 I"
  shows "acc32 I c t b = Fin 0"
proof (induction "time_steps32 I - t" arbitrary: t)
  case 0
  then show ?case by (simp add: acc32.simps [of I c t])
next
  case (Suc n)
  then have t: "t < time_steps32 I" and n: "n = time_steps32 I - (t + 1)" by simp_all
  have "acc32 I c (t + 1) b = Fin 0" by (rule Suc.hyps(1) [OF n])
  then have nxt: "acc32 I c (Suc t) b = Fin 0" by simp
  obtain k where k: "clipped32 c (rho32 I t b) = Fin k"
    using assms(4,5) t by (metis is_fin.elims(2))
  have d: "delta32 I c t b = Fin 0"
    using assms(3,5) t by (simp add: delta32_def k round32_zero)
  obtain q where q: "fmul (rows32 (discounts32 I) ! t ! b) (clip_elem (Fin 1) (rho32 I t b)) = Fin q"
    using discount_times_cs32 [OF assms(1,2) t assms(5)] by blast
  show ?case
    using t by (simp add: acc32.simps [of I c t] d q nxt round32_zero)
qed

section \<open>The single step\<close>

lemma valid_step32: "valid_input32 (step32 lb lt gamma r v vb)"
  by (simp add: valid_input32_def has_shape32_def time_steps32_def batch_size32_def step32_def)

lemma sizes_step32:
  "time_steps32 (step32 lb lt gamma r v vb) = 1" "batch_size32 (step32 lb lt gamma r v vb) = 1"
  by (simp_all add: time_steps32_def batch_size32_def step32_def)

lemma threshold_ok_at_least_one: "absent_or_at_least_one32 c \<Longrightarrow> threshold_ok c"
  by (cases c rule: absent_or_at_least_one32.cases)
    (simp_all add: threshold_ok_def fle_def lowest32_def)

lemma clipped_one: "absent_or_at_least_one32 c \<Longrightarrow> clipped32 c (Fin 1) = Fin 1"
  by (cases c rule: absent_or_at_least_one32.cases)
    (simp_all add: clipped32_def clip_elem_def lowest32_def)

lemma rho_on_policy:
  assumes "round32 lp = Fin lp"
  shows "rho32 (step32 lp lp gamma r v vb) 0 0 = Fin 1"
  by (simp add: rho32_def step32_def fsub_def round32_zero round32_one)

section \<open>Inputs that agree on a prefix\<close>

lemma take_eq_nth:
  assumes "take (Suc t) xs = take (Suc t) ys" and "s \<le> t"
  shows "xs ! s = ys ! s"
proof -
  have "xs ! s = take (Suc t) xs ! s"
    using assms(2) by simp
  also have "\<dots> = take (Suc t) ys ! s"
    by (simp only: assms(1))
  also have "\<dots> = ys ! s"
    using assms(2) by simp
  finally show ?thesis .
qed

lemma agree_rows32:
  assumes "agree_upto32 t I J" and "s \<le> t"
  shows "rows32 (behaviour_actions_log_probs32 I) ! s = rows32 (behaviour_actions_log_probs32 J) ! s"
    and "rows32 (target_actions_log_probs32 I) ! s = rows32 (target_actions_log_probs32 J) ! s"
    and "rows32 (discounts32 I) ! s = rows32 (discounts32 J) ! s"
    and "rows32 (rewards32 I) ! s = rows32 (rewards32 J) ! s"
    and "rows32 (values32 I) ! s = rows32 (values32 J) ! s"
  using assms unfolding agree_upto32_def by (blast intro: take_eq_nth)+

lemma next_entry32:
  assumes "valid_input32 I" and "finite_inputs32 I" and "t < time_steps32 I" and "b < batch_size32 I"
  shows "\<exists>a. next32 I (rows32 (values32 I)) t b = Fin a"
proof (cases "t + 1 < time_steps32 I")
  case True
  then show ?thesis
    using entry32 [of _ _ "values32 I" "t + 1" b] assms
    by (auto simp: next32_def valid_input32_def finite_inputs32_def)
next
  case False
  then show ?thesis
    using bootstrap_entry32 [OF assms(2,4)] by (auto simp: next32_def)
qed

lemma acc32_at_zero_discount:
  assumes "valid_input32 I" and "finite_inputs32 I" and "t < time_steps32 I" and "b < batch_size32 I"
    and "rows32 (discounts32 I) ! t ! b = Fin 0" and "is_fin (acc32 I c (t + 1) b)"
  shows "acc32 I c t b
           = fadd (fmul (clipped32 c (rho32 I t b))
                     (fsub (fadd (rows32 (rewards32 I) ! t ! b) (Fin 0)) (rows32 (values32 I) ! t ! b)))
                  (Fin 0)"
proof -
  obtain k where k: "clip_elem (Fin 1) (rho32 I t b) = Fin k"
    using cs_entry32 [OF assms(1-4)] by blast
  obtain a where "acc32 I c (t + 1) b = Fin a"
    using assms(6) by (metis is_fin.elims(2))
  then have a: "acc32 I c (Suc t) b = Fin a"
    by simp
  obtain n where n: "next32 I (rows32 (values32 I)) t b = Fin n"
    using next_entry32 [OF assms(1-4)] by blast
  show ?thesis
    using assms(3)
    by (simp add: acc32.simps [of I c t] assms(5) k a delta32_def td32_def n round32_zero)
qed

lemma acc32_cut:
  assumes vI: "valid_input32 I" and vJ: "valid_input32 J"
    and fI: "finite_inputs32 I" and fJ: "finite_inputs32 J"
    and agree: "agree_upto32 t I J"
    and t: "t < time_steps32 I" "t < time_steps32 J"
    and b: "b < batch_size32 I" "b < batch_size32 J"
    and zero: "rows32 (discounts32 I) ! t ! b = Fin 0"
    and fin: "is_fin (acc32 I c (t + 1) b)" "is_fin (acc32 J c (t + 1) b)"
    and s: "s \<le> t"
  shows "acc32 I c s b = acc32 J c s b"
  using s
proof (induction "t - s" arbitrary: s)
  case 0
  then have st: "s = t" by simp
  have zeroJ: "rows32 (discounts32 J) ! t ! b = Fin 0"
    using zero agree_rows32(3) [OF agree order_refl] by simp
  show ?case
    unfolding st acc32_at_zero_discount [OF vI fI t(1) b(1) zero fin(1)]
      acc32_at_zero_discount [OF vJ fJ t(2) b(2) zeroJ fin(2)]
    using agree_rows32 [OF agree order_refl] by (simp add: rho32_def)
next
  case (Suc n)
  then have lt: "s < t" and n: "n = t - (s + 1)" and le: "s + 1 \<le> t" by simp_all
  have IH: "acc32 I c (s + 1) b = acc32 J c (s + 1) b"
    by (rule Suc.hyps(1) [OF n le])
  have nxt: "next32 I (rows32 (values32 I)) s b = next32 J (rows32 (values32 J)) s b"
    using lt t agree_rows32(5) [OF agree le] by (simp add: next32_def)
  show ?case
    using lt t IH nxt agree_rows32 [OF agree Suc.prems]
    by (simp add: acc32.simps [of I c s] acc32.simps [of J c s] delta32_def td32_def rho32_def)
qed

lemma round32_big: "round32 170141183460469231731687303715884105728 = Fin 170141183460469231731687303715884105728"
  by (rule round32_exact [of 127 _ "2 ^ 23"]) simp_all

lemma round32_big2: "round32 340282366920938463463374607431768211456 = PInf"
  by (simp add: round32_def overflow_at_def)

section \<open>Failures inside the body\<close>







section \<open>Rounding and magnitude\<close>

lemma quant_abs: "\<bar>quant x\<bar> = quant \<bar>x\<bar>"
proof (cases "0 \<le> x")
  case True
  then show ?thesis
    using quant_nonneg [of x] by simp
next
  case False
  then have "0 \<le> quant (- x)"
    by (intro quant_nonneg) simp
  with False show ?thesis
    by (simp add: quant_minus abs_if)
qed

lemma quant_mag_mono:
  assumes "\<bar>x\<bar> \<le> \<bar>y\<bar>"
  shows "\<bar>quant x\<bar> \<le> \<bar>quant y\<bar>"
proof (cases "x = 0")
  case True
  then show ?thesis by (simp add: quant_zero)
next
  case False
  then have "0 < \<bar>x\<bar>" by simp
  then have "quant \<bar>x\<bar> \<le> quant \<bar>y\<bar>"
    using assms by (rule quant_mono_pos)
  then show ?thesis
    by (simp only: quant_abs)
qed

lemma round32_mag_mono:
  assumes "\<bar>x\<bar> \<le> \<bar>y\<bar>"
  shows "mag_le (round32 x) (round32 y)"
proof (cases "overflow_at \<le> \<bar>y\<bar>")
  case True
  then have "round32 y = PInf \<or> round32 y = NInf"
    by (auto simp: round32_def overflow_at_def)
  then show ?thesis
    by (cases "round32 x") auto
next
  case False
  then have y: "\<not> overflow_at \<le> y" "\<not> y \<le> - overflow_at"
    and x: "\<not> overflow_at \<le> x" "\<not> x \<le> - overflow_at"
    using assms by linarith+
  show ?thesis
    using x y assms quant_mag_mono [OF assms]
    by (auto simp: round32_def quant_zero)
qed

lemma exp_one_rounded: "\<exists>q\<ge>2. round32 (exp 1) = Fin q"
proof -
  have lo: "(2::real) \<le> exp 1"
    using exp_ge_add_one_self [of "1::real"] by simp
  have hi: "exp (1::real) < 4"
    using exp_le by linarith
  have e: "expo (exp 1) = 1"
    using lo hi by (intro expo_normal) simp_all
  have "2 powr of_int (expo (exp 1)) \<le> quant (exp 1)"
    using lo by (intro quant_lower) (simp add: e)
  then have q: "2 \<le> quant (exp 1)"
    by (simp add: e)
  have "round32 (exp 1) = Fin (quant (exp 1))"
    using hi lo by (simp add: round32_def overflow_at_def)
  with q show ?thesis by blast
qed

lemma clip_exp_one: "c < 2 \<Longrightarrow> clip_elem (Fin c) (round32 (exp 1)) = Fin c"
  using exp_one_rounded by (auto simp: clip_elem_def lowest32_def)

lemma flt_exp_one: "c < 2 \<Longrightarrow> flt (Fin c) (round32 (exp 1))"
  using exp_one_rounded by auto

lemma round32_d: "round32 (11534337 / 8388608) = Fin (11534337 / 8388608)"
  by (rule round32_exact [of 0 _ 11534337]) (simp_all add: powr_neg_numeral)

lemma round32_q: "round32 (8650753 / 4194304) = Fin (8650753 / 4194304)"
  by (rule round32_exact [of 1 _ 8650753]) (simp_all add: powr_neg_numeral)

lemma round32_low: "round32 (34603011 / 16777216) = Fin (8650753 / 4194304)"
  using round32_eval [of 1 "34603011 / 16777216" 8650753]
  by (simp add: overflow_at_def rne_def powr_neg_numeral)

lemma round32_high: "round32 (145135558983681 / 70368744177664) = Fin (8650753 / 4194304)"
  using round32_eval [of 1 "145135558983681 / 70368744177664" 8650753]
  by (simp add: overflow_at_def rne_def powr_neg_numeral)

lemma finite32_small:
  "finite32 (Fin 0)" "finite32 (Fin 1)" "finite32 (Fin (- 1))"
  "numeral k \<le> (16777216::int) \<Longrightarrow> finite32 (Fin (numeral k))"
  "numeral k \<le> (16777216::int) \<Longrightarrow> finite32 (Fin (- numeral k))"
  by (simp_all add: finite32_def closed32_def round32_small)

lemma threshold_ok_one: "threshold_ok (Some (Fin 1))"
  by (simp add: threshold_ok_def fle_def lowest32_def)

lemma round32_three_halves: "round32 (3 / 2) = Fin (3 / 2)"
  by (rule round32_exact [of 0 _ 12582912]) (simp_all add: powr_neg_numeral)

lemma round32_seventeen_halves: "round32 (- (17 / 2)) = Fin (- (17 / 2))"
  by (rule round32_exact [of 3 _ "- 8912896"]) (simp_all add: powr_neg_numeral)

section \<open>Mismatched inputs and thresholds\<close>




section \<open>A zero discount\<close>

text \<open>
  Claim C6, as the specification states it: with \<open>discounts[t] = 0\<close> the accumulator and
  \<open>vs\<close> before \<open>t\<close> are unaffected by \<open>acc\<^sub>t\<close>, and two calls whose inputs agree up to
  and including \<open>t\<close> give the same \<open>vs[s]\<close> for \<open>s\<close> before \<open>t\<close>, whatever comes later.
  Neither holds. The trajectories \<open>two32 (-10)\<close> and \<open>two32 (-20)\<close> agree at step 0,
  both have discount \<open>0\<close> at step 1 and differ in the reward of step 1 only, hence in
  \<open>acc\<^sub>1\<close>: \<open>vs[0]\<close> is \<open>-9\<close> for one and \<open>-19\<close> for the other. And \<open>three32 2\<^sup>1\<^sup>2\<^sup>7\<close>
  agrees with \<open>two32 (-10)\<close> up to and including step 1, where the discount is \<open>0\<close>, and
  all its elements are finite; at its third step \<open>2\<^sup>1\<^sup>2\<^sup>7 + 1 * 2\<^sup>1\<^sup>2\<^sup>7\<close> overflows, the
  product \<open>0 * 1 * inf\<close> at step 1 is NaN, and \<open>vs[0]\<close> and \<open>vs[1]\<close> are NaN instead of
  \<open>-9\<close> and \<open>-10\<close>.
\<close>

theorem zero_discount_not_isolating:
  "agree_upto32 0 (two32 (- 10)) (two32 (- 20))
   \<and> rows32 (discounts32 (two32 (- 10))) ! 1 = [Fin 0]
   \<and> rows32 (discounts32 (two32 (- 20))) ! 1 = [Fin 0]
   \<and> from_importance_weights32 (two32 (- 10)) (Some (Fin 1)) (Some (Fin 1))
       = Inr \<lparr> vs32 = [[Fin (- 9)], [Fin (- 10)]], pg_advantages32 = [[Fin (- 9)], [Fin (- 10)]] \<rparr>
   \<and> from_importance_weights32 (two32 (- 20)) (Some (Fin 1)) (Some (Fin 1))
       = Inr \<lparr> vs32 = [[Fin (- 19)], [Fin (- 20)]], pg_advantages32 = [[Fin (- 19)], [Fin (- 20)]] \<rparr>
   \<and> agree_upto32 1 (two32 (- 10)) (three32 170141183460469231731687303715884105728)
   \<and> from_importance_weights32 (three32 170141183460469231731687303715884105728)
         (Some (Fin 1)) (Some (Fin 1))
       = Inr \<lparr> vs32 = [[NaN], [NaN], [PInf]], pg_advantages32 = [[NaN], [NaN], [PInf]] \<rparr>"
  by (simp add: body32_defs two32_def three32_def agree_upto32_def round32_small round32_big
      round32_big2 numeral_2_eq_2 numeral_3_eq_3)

text \<open>
  Claim C6, amended. Take two valid inputs with finite elements that agree at all
  timesteps up to and including \<open>t\<close>, with \<open>discounts[t] = 0\<close> in every lane, called
  with the same \<open>clip_rho_threshold\<close> (and any \<open>clip_pg_rho_threshold\<close>, each accepted by
  the clip). If the accumulator \<open>acc\<^sub>t\<^sub>+\<^sub>1\<close> is finite in every lane in both calls, then
  both calls return, and \<open>vs_minus_v_xs[s]\<close> and \<open>vs[s]\<close> are the same in both for every
  \<open>s \<le> t\<close>, whatever the two inputs are after \<open>t\<close>.
\<close>

theorem zero_discount_cuts_finite_trace:
  assumes "valid_input32 I" and "valid_input32 J"
    and "finite_inputs32 I" and "finite_inputs32 J"
    and "threshold_ok c1" and "threshold_ok c2" and "threshold_ok c2'"
    and "t < time_steps32 I" and "t < time_steps32 J"
    and "agree_upto32 t I J"
    and "rows32 (discounts32 I) ! t = replicate (batch_size32 I) (Fin 0)"
    and "\<forall>b<batch_size32 I. is_fin (acc32 I c1 (t + 1) b) \<and> is_fin (acc32 J c1 (t + 1) b)"
  shows "\<exists>a a' r r'. vs_minus_v_xs32 I c1 = Inr a \<and> vs_minus_v_xs32 J c1 = Inr a'
           \<and> from_importance_weights32 I c1 c2 = Inr r
           \<and> from_importance_weights32 J c1 c2' = Inr r'
           \<and> (\<forall>s\<le>t. mrows a ! s = mrows a' ! s \<and> vs32 r ! s = vs32 r' ! s)"
proof -
  have "length (rows32 (discounts32 I) ! t) = batch_size32 I"
    and "length (rows32 (discounts32 J) ! t) = batch_size32 J"
    using assms(1,2,8,9) by (simp_all add: valid_input32_def has_shape32_def list_all_length)
  then have B: "batch_size32 J = batch_size32 I"
    using agree_rows32(3) [OF assms(10) order_refl] by simp
  have acc: "acc32 I c1 s b = acc32 J c1 s b" if "s \<le> t" "b < batch_size32 I" for s b
    using that assms(11,12) B
    by (intro acc32_cut [OF assms(1-4,10,8,9)]) simp_all
  have "tabf (time_steps32 I) (batch_size32 I) (acc32 I c1) ! s
          = tabf (time_steps32 J) (batch_size32 J) (acc32 J c1) ! s
        \<and> vs_entries I c1 ! s = vs_entries J c1 ! s" if "s \<le> t" for s
    using that assms(8,9) agree_rows32(5) [OF assms(10) that]
    by (simp add: vs_entries_def tabf_def B acc)
  then show ?thesis
    by (simp add: returns32_on_valid assms(1,2,5,6,7) vs_minus_v_xs32_closed mtab_def)
qed

text \<open>
  The trajectories \<open>two32 (-10)\<close> and \<open>three32 5\<close> meet these conditions at \<open>t = 1\<close>,
  with \<open>acc\<^sub>2\<close> equal to \<open>0\<close> in the first and \<open>10\<close> in the second.
\<close>

theorem zero_discount_cuts_finite_trace_witness:
  "valid_input32 (two32 (- 10)) \<and> valid_input32 (three32 5)
   \<and> finite_inputs32 (two32 (- 10)) \<and> finite_inputs32 (three32 5)
   \<and> threshold_ok (Some (Fin 1)) \<and> threshold_ok None
   \<and> 1 < time_steps32 (two32 (- 10)) \<and> 1 < time_steps32 (three32 5)
   \<and> agree_upto32 1 (two32 (- 10)) (three32 5)
   \<and> rows32 (discounts32 (two32 (- 10))) ! 1 = replicate (batch_size32 (two32 (- 10))) (Fin 0)
   \<and> acc32 (two32 (- 10)) (Some (Fin 1)) 2 0 = Fin 0
   \<and> acc32 (three32 5) (Some (Fin 1)) 2 0 = Fin 10
   \<and> (\<exists>a a' r r'. vs_minus_v_xs32 (two32 (- 10)) (Some (Fin 1)) = Inr a
          \<and> vs_minus_v_xs32 (three32 5) (Some (Fin 1)) = Inr a'
          \<and> from_importance_weights32 (two32 (- 10)) (Some (Fin 1)) None = Inr r
          \<and> from_importance_weights32 (three32 5) (Some (Fin 1)) (Some (Fin 1)) = Inr r'
          \<and> (\<forall>s\<le>1. mrows a ! s = mrows a' ! s \<and> vs32 r ! s = vs32 r' ! s))"
proof -
  let ?I = "two32 (- 10)" and ?J = "three32 5"
  have v: "valid_input32 ?I" "valid_input32 ?J"
    by (simp_all add: valid_input32_def has_shape32_def time_steps32_def batch_size32_def
        two32_def three32_def)
  have f: "finite_inputs32 ?I" "finite_inputs32 ?J"
    by (simp_all add: finite_inputs32_def finite_tensor_def two32_def three32_def finite32_small)
  have ok: "threshold_ok (Some (Fin 1))" "threshold_ok None"
    by (simp_all add: threshold_ok_def fle_def lowest32_def)
  have t: "1 < time_steps32 ?I" "1 < time_steps32 ?J"
    by (simp_all add: time_steps32_def two32_def three32_def)
  have ag: "agree_upto32 1 ?I ?J"
    by (simp add: agree_upto32_def two32_def three32_def numeral_2_eq_2)
  have z: "rows32 (discounts32 ?I) ! 1 = replicate (batch_size32 ?I) (Fin 0)"
    by (simp add: batch_size32_def two32_def)
  have acc: "acc32 ?I (Some (Fin 1)) 2 0 = Fin 0" "acc32 ?J (Some (Fin 1)) 2 0 = Fin 10"
    by (simp_all add: acc32.simps delta32_def td32_def next32_def rho32_def clipped32_def
        clip_elem_def lowest32_def time_steps32_def two32_def three32_def fsub_def round32_small)
  have fin: "\<forall>b<batch_size32 ?I. is_fin (acc32 ?I (Some (Fin 1)) (1 + 1) b)
               \<and> is_fin (acc32 ?J (Some (Fin 1)) (1 + 1) b)"
  proof (intro allI impI)
    fix b assume "b < batch_size32 ?I"
    then have "b = 0" by (simp add: batch_size32_def two32_def)
    with acc show "is_fin (acc32 ?I (Some (Fin 1)) (1 + 1) b)
               \<and> is_fin (acc32 ?J (Some (Fin 1)) (1 + 1) b)"
      by (simp add: numeral_2_eq_2)
  qed
  from zero_discount_cuts_finite_trace [OF v f ok(1) ok(2) ok(1) t ag z fin] v f ok t ag z acc
  show ?thesis by simp
qed

section \<open>Lowering the clip threshold\<close>

lemma exp_one_gt: "3 / 2 < exp (1::real)"
  using exp_ge_add_one_self [of "1::real"] by simp

lemma min_exp_one: "min (exp (1::real)) (3 / 2) = 3 / 2"
  using exp_one_gt by (simp add: min_def)

text \<open>
  Claim C7, as the specification states it: where the ratio exceeds \<open>clip_rho_threshold\<close>,
  lowering the threshold strictly reduces \<open>|vs[t] - values[t]|\<close>, and clipping never
  increases it. On the two-step trajectory the ratio at step 0 is \<open>exp 1 > 3/2\<close> in both
  lanes. Lowering the threshold from \<open>3/2\<close> to \<open>1\<close> increases \<open>|vs[0] - values[0]|\<close>
  in lane 0 from \<open>17/2\<close> to \<open>9\<close>, because the term propagated from step 1 has the
  opposite sign; in lane 1, where the residual is zero, it leaves the correction at
  zero, which is no strict reduction.
\<close>

theorem clipping_can_grow_correction:
  "valid_input two_steps
   \<and> 3 / 2 < rhos two_steps ! 0 ! 0 \<and> 3 / 2 < rhos two_steps ! 0 ! 1
   \<and> from_importance_weights two_steps (Some (Finite (3 / 2))) (Some (Finite 1))
       = Inr \<lparr> vs = [[- (17 / 2), 0], [-10, 0]], pg_advantages = [[-9, 0], [-10, 0]] \<rparr>
   \<and> from_importance_weights two_steps (Some (Finite 1)) (Some (Finite 1))
       = Inr \<lparr> vs = [[-9, 0], [-10, 0]], pg_advantages = [[-9, 0], [-10, 0]] \<rparr>
   \<and> \<bar>vs_out two_steps (Some (Finite (3 / 2))) ! 0 ! 0 - rows (values_in two_steps) ! 0 ! 0\<bar>
       < \<bar>vs_out two_steps (Some (Finite 1)) ! 0 ! 0 - rows (values_in two_steps) ! 0 ! 0\<bar>
   \<and> \<not> \<bar>vs_out two_steps (Some (Finite 1)) ! 0 ! 1 - rows (values_in two_steps) ! 0 ! 1\<bar>
         < \<bar>vs_out two_steps (Some (Finite (3 / 2))) ! 0 ! 1 - rows (values_in two_steps) ! 0 ! 1\<bar>"
proof -
  have r: "rhos two_steps = [[exp 1, exp 1], [1, 1]]"
    by (simp add: body_defs two_steps_def)
  have a: "vs_out two_steps (Some (Finite (3 / 2))) = [[- (17 / 2), 0], [-10, 0]]"
    by (simp add: body_defs two_steps_def min_exp_one)
  have b: "vs_out two_steps (Some (Finite 1)) = [[-9, 0], [-10, 0]]"
    by (simp add: body_defs two_steps_def)
  have pa: "pg_advantages_out two_steps (Some (Finite (3 / 2))) (Some (Finite 1)) = [[-9, 0], [-10, 0]]"
    unfolding pg_advantages_out_def vs_t_plus_1_def a
    by (simp add: body_defs two_steps_def)
  have pb: "pg_advantages_out two_steps (Some (Finite 1)) (Some (Finite 1)) = [[-9, 0], [-10, 0]]"
    unfolding pg_advantages_out_def vs_t_plus_1_def b
    by (simp add: body_defs two_steps_def)
  have v: "rows (values_in two_steps) = [[0, 0], [0, 0]]"
    by (simp add: two_steps_def)
  show ?thesis
    unfolding returns_on_valid [OF valid_two_steps] r a b pa pb v
    using exp_one_gt valid_two_steps by simp
qed

text \<open>
  The same run in float32 arithmetic, where every number of it is exact (lane 0): the
  correction at step 0 grows from \<open>17/2\<close> to \<open>9\<close> when the threshold is lowered from
  \<open>3/2\<close> to \<open>1\<close>.
\<close>

theorem clipping_can_grow_correction32:
  "valid_input32 two_steps32
   \<and> flt (Fin (3 / 2)) (rho32 two_steps32 0 0)
   \<and> from_importance_weights32 two_steps32 (Some (Fin (3 / 2))) (Some (Fin 1))
       = Inr \<lparr> vs32 = [[Fin (- (17 / 2))], [Fin (- 10)]],
               pg_advantages32 = [[Fin (- 9)], [Fin (- 10)]] \<rparr>
   \<and> from_importance_weights32 two_steps32 (Some (Fin 1)) (Some (Fin 1))
       = Inr \<lparr> vs32 = [[Fin (- 9)], [Fin (- 10)]],
               pg_advantages32 = [[Fin (- 9)], [Fin (- 10)]] \<rparr>"
  by (simp add: body32_struct two_steps32_def round32_small round32_three_halves
      round32_seventeen_halves clip_exp_one flt_exp_one valid_input32_def has_shape32_def
      time_steps32_def batch_size32_def rho32_def numeral_2_eq_2)
    (simp add: clip_elem_def lowest32_def round32_small round32_seventeen_halves)

text \<open>
  In float32 arithmetic a lower threshold need not change anything, even at the last step
  and with a non-zero residual. On one step with ratio \<open>exp 1\<close> and residual
  \<open>11/8 + 2\<^sup>-\<^sup>2\<^sup>3\<close>, the thresholds \<open>3/2 + 2\<^sup>-\<^sup>2\<^sup>3\<close> and \<open>3/2\<close> are both below the
  ratio, and the two products round to the same float32: \<open>vs\<close> is the same.
\<close>

theorem lower_threshold_same_result:
  "td32 (step32 (- 1) 0 0 (11534337 / 8388608) 0 0)
        (rows32 (values32 (step32 (- 1) 0 0 (11534337 / 8388608) 0 0))) 0 0 = Fin (11534337 / 8388608)
   \<and> flt (Fin (12582913 / 8388608)) (rho32 (step32 (- 1) 0 0 (11534337 / 8388608) 0 0) 0 0)
   \<and> from_importance_weights32 (step32 (- 1) 0 0 (11534337 / 8388608) 0 0)
        (Some (Fin (12582913 / 8388608))) (Some (Fin 1))
       = Inr \<lparr> vs32 = [[Fin (8650753 / 4194304)]], pg_advantages32 = [[Fin (11534337 / 8388608)]] \<rparr>
   \<and> from_importance_weights32 (step32 (- 1) 0 0 (11534337 / 8388608) 0 0)
        (Some (Fin (3 / 2))) (Some (Fin 1))
       = Inr \<lparr> vs32 = [[Fin (8650753 / 4194304)]], pg_advantages32 = [[Fin (11534337 / 8388608)]] \<rparr>"
  by (simp add: body32_struct step32_def round32_small round32_d round32_q round32_low round32_high
      clip_exp_one flt_exp_one td32_def next32_def time_steps32_def rho32_def)

text \<open>
  Claim C7, amended. On a valid input, at a step \<open>t\<close> and lane \<open>b\<close> where the ratio
  exceeds the threshold \<open>c\<close> and the residual
  \<open>rewards[t] + discounts[t] * values_t_plus_1[t] - values[t]\<close> is finite, lowering the
  threshold to a positive \<open>c' < c\<close> does not increase the magnitude of the step's own term
  \<open>deltas[t][b]\<close> of the correction. (By the runs above it need not reduce it, and
  \<open>|vs[t] - values[t]|\<close>, which also contains the term propagated from later steps, can
  increase.)
\<close>

theorem lower_threshold_never_grows_delta:
  assumes "valid_input32 I" and "t < time_steps32 I" and "b < batch_size32 I"
    and "0 < c'" and "c' < c" and "flt (Fin c) (rho32 I t b)"
    and "td32 I (rows32 (values32 I)) t b = Fin d"
  shows "\<exists>D' D. deltas32 I (Some (Fin c')) = Inr D' \<and> deltas32 I (Some (Fin c)) = Inr D
           \<and> mag_le (mrows D' ! t ! b) (mrows D ! t ! b)"
proof -
  have ok: "threshold_ok (Some (Fin c'))" "threshold_ok (Some (Fin c))"
    using assms(4,5) by (simp_all add: threshold_ok_def fle_def lowest32_def)
  have cl: "clip_elem (Fin c) (rho32 I t b) = Fin c" "clip_elem (Fin c') (rho32 I t b) = Fin c'"
    using assms(4,5,6) by (cases "rho32 I t b"; simp add: clip_elem_def lowest32_def)+
  have "\<bar>c' * d\<bar> \<le> \<bar>c * d\<bar>"
    using assms(4,5) by (simp add: abs_mult mult_right_mono)
  then have "mag_le (round32 (c' * d)) (round32 (c * d))"
    by (rule round32_mag_mono)
  then have "mag_le (delta32 I (Some (Fin c')) t b) (delta32 I (Some (Fin c)) t b)"
    by (simp add: delta32_def clipped32_def cl assms(7))
  then show ?thesis
    using assms(2,3)
    by (simp add: deltas32_closed [OF assms(1)] ok mtab_def nth_tabf)
qed

text \<open>
  One step with ratio \<open>exp 1\<close> and residual \<open>1\<close>, thresholds \<open>3/2\<close> and \<open>1\<close>.
\<close>

theorem lower_threshold_never_grows_delta_witness:
  "valid_input32 (step32 (- 1) 0 0 1 0 0)
   \<and> 0 < time_steps32 (step32 (- 1) 0 0 1 0 0) \<and> 0 < batch_size32 (step32 (- 1) 0 0 1 0 0)
   \<and> (0::real) < 1 \<and> (1::real) < 3 / 2
   \<and> flt (Fin (3 / 2)) (rho32 (step32 (- 1) 0 0 1 0 0) 0 0)
   \<and> td32 (step32 (- 1) 0 0 1 0 0) (rows32 (values32 (step32 (- 1) 0 0 1 0 0))) 0 0 = Fin 1
   \<and> (\<exists>D' D. deltas32 (step32 (- 1) 0 0 1 0 0) (Some (Fin 1)) = Inr D'
          \<and> deltas32 (step32 (- 1) 0 0 1 0 0) (Some (Fin (3 / 2))) = Inr D
          \<and> mag_le (mrows D' ! 0 ! 0) (mrows D ! 0 ! 0))"
proof -
  let ?I = "step32 (- 1) 0 0 1 0 0"
  have h: "0 < time_steps32 ?I" "0 < batch_size32 ?I"
    by (simp_all add: sizes_step32)
  have r: "flt (Fin (3 / 2)) (rho32 ?I 0 0)"
    by (simp add: rho32_def step32_def fsub_def round32_small flt_exp_one)
  have td: "td32 ?I (rows32 (values32 ?I)) 0 0 = Fin 1"
    by (simp add: td32_def next32_def sizes_step32) (simp add: step32_def fsub_def round32_small)
  from lower_threshold_never_grows_delta [OF valid_step32 h _ _ r td, of 1] valid_step32 h r td
  show ?thesis by simp
qed

section \<open>A single on-policy step\<close>

text \<open>
  Claim C9, as the specification states it: for one on-policy step, \<open>vs[0][0]\<close> is
  \<open>r + \<gamma> * vb\<close>. The code computes \<open>vs\<close> as \<open>(r + \<gamma> * vb - v) + v\<close>, each operation
  rounded. With \<open>r = 1\<close>, \<open>v = 10\<^sup>8\<close>, \<open>\<gamma> = 0\<close> and \<open>vb = 0\<close> the difference
  \<open>1 - 10\<^sup>8\<close> rounds to \<open>-10\<^sup>8\<close> and \<open>vs[0][0]\<close> is \<open>0\<close>, not \<open>1\<close>.
\<close>

theorem single_step_rounding_loses_reward:
  "from_importance_weights32 (step32 0 0 0 1 100000000 0) None None
     = Inr \<lparr> vs32 = [[Fin 0]], pg_advantages32 = [[Fin (- 100000000)]] \<rparr>
   \<and> Fin 0 \<noteq> Fin (1 + 0 * 0)"
  by (simp add: body32_defs step32_def round32_zero round32_one round32_1e8 round32_99999999)

text \<open>
  Claim C9, amended. For the single step \<open>T = 1\<close>, \<open>B = 1\<close> with finite float32 elements,
  \<open>discounts = [[\<gamma>]]\<close>, \<open>rewards = [[r]]\<close>, \<open>values = [[v]]\<close>,
  \<open>bootstrap_value = [vb]\<close>, equal behaviour and target log-probabilities, and each clip
  threshold absent or at least \<open>1\<close>, the function returns
  \<open>pg_advantages[0][0] = (r \<oplus> \<gamma> \<otimes> vb) \<ominus> v\<close> and \<open>vs[0][0] = ((r \<oplus> \<gamma> \<otimes> vb) \<ominus> v) \<oplus> v\<close>, where
  \<open>\<oplus>\<close>, \<open>\<ominus>\<close> and \<open>\<otimes>\<close> are the float32 operations, each rounding its exact result.
\<close>

theorem single_step_rounded:
  assumes "round32 gamma = Fin gamma" and "round32 lp = Fin lp"
    and "absent_or_at_least_one32 c1" and "absent_or_at_least_one32 c2"
  shows "from_importance_weights32 (step32 lp lp gamma r v vb) c1 c2
           = Inr \<lparr> vs32 = [[fadd (fsub (fadd (Fin r) (fmul (Fin gamma) (Fin vb))) (Fin v)) (Fin v)]],
                   pg_advantages32 = [[fsub (fadd (Fin r) (fmul (Fin gamma) (Fin vb))) (Fin v)]] \<rparr>"
proof -
  let ?I = "step32 lp lp gamma r v vb"
  define d where "d = fsub (fadd (Fin r) (fmul (Fin gamma) (Fin vb))) (Fin v)"
  have cd: "closed32 d"
    by (simp add: d_def closed_fsub)
  have rho: "rho32 ?I 0 0 = Fin 1"
    by (rule rho_on_policy [OF assms(2)])
  have td: "td32 ?I xs 0 0 = d" for xs
    by (simp add: td32_def next32_def sizes_step32 d_def) (simp add: step32_def)
  have g: "rows32 (discounts32 ?I) ! 0 ! 0 = Fin gamma"
    by (simp add: step32_def)
  have cs: "clip_elem (Fin 1) (Fin 1) = Fin 1"
    by (simp add: clip_elem_def lowest32_def)
  have g1: "fmul (Fin gamma) (Fin 1) = Fin gamma"
    using assms(1) by simp
  have acc: "acc32 ?I c1 0 0 = d"
    by (simp add: acc32.simps [of ?I c1 0] acc32.simps [of ?I c1 "Suc 0"] sizes_step32 delta32_def rho td
        clipped_one [OF assms(3)] fmul_one_left [OF cd] g cs g1 fadd_zero_right [OF cd]
        del: fmul.simps fadd.simps)
  have vs: "vs_entries ?I c1 = [[fadd d (Fin v)]]"
    by (simp add: vs_entries_def sizes_step32 tabf_def acc del: fadd.simps) (simp add: step32_def)
  have pg: "tabf (time_steps32 ?I) (batch_size32 ?I)
              (\<lambda>t b. fmul (clipped32 c2 (rho32 ?I t b)) (td32 ?I xs t b)) = [[d]]" for xs
    by (simp add: sizes_step32 tabf_def rho td clipped_one [OF assms(4)] fmul_one_left [OF cd]
        del: fmul.simps)
  show ?thesis
    unfolding returns32_on_valid [OF valid_step32 threshold_ok_at_least_one [OF assms(3)]
        threshold_ok_at_least_one [OF assms(4)]] vs pg d_def ..
qed

text \<open>
  With \<open>r = 3\<close>, \<open>\<gamma> = 1\<close>, \<open>vb = 2\<close>, \<open>v = 1\<close>, no \<open>clip_rho_threshold\<close> and
  \<open>clip_pg_rho_threshold = 2\<close>: \<open>vs = [[5]]\<close> and \<open>pg_advantages = [[4]]\<close>.
\<close>

theorem single_step_rounded_witness:
  "round32 1 = Fin 1 \<and> round32 (- 1) = Fin (- 1)
   \<and> absent_or_at_least_one32 None \<and> absent_or_at_least_one32 (Some (Fin 2))
   \<and> from_importance_weights32 (step32 (- 1) (- 1) 1 3 1 2) None (Some (Fin 2))
       = Inr \<lparr> vs32 = [[Fin 5]], pg_advantages32 = [[Fin 4]] \<rparr>"
proof -
  have h: "round32 1 = Fin 1" "round32 (- 1) = Fin (- 1)"
    by (simp_all add: round32_small)
  have a: "absent_or_at_least_one32 None" "absent_or_at_least_one32 (Some (Fin 2))"
    by simp_all
  from single_step_rounded [where r = 3 and v = 1 and vb = 2, OF h a]
  have "from_importance_weights32 (step32 (- 1) (- 1) 1 3 1 2) None (Some (Fin 2))
       = Inr \<lparr> vs32 = [[Fin 5]], pg_advantages32 = [[Fin 4]] \<rparr>"
    by (simp add: fsub_def round32_small)
  with h a show ?thesis by simp
qed

section \<open>Value estimates at a fixed point\<close>

text \<open>
  Claim C10, as stated: when every residual
  \<open>rewards[t] + discounts[t] * values_t_plus_1[t] - values[t]\<close> is zero, the function
  returns \<open>vs = values\<close> and \<open>pg_advantages = 0\<close> for any log-probabilities and any
  thresholds. On one step with residual \<open>1 + 1 * 2 - 3 = 0\<close>, behaviour log-probability
  \<open>-100\<close>, target log-probability \<open>0\<close> and no thresholds, the ratio \<open>exp 100\<close>
  overflows to infinity, \<open>inf * 0\<close> is NaN, and both results are NaN.
\<close>

theorem fixed_point_overflowing_ratio:
  "valid_input32 (step32 (- 100) 0 1 1 3 2)
   \<and> td32 (step32 (- 100) 0 1 1 3 2) (rows32 (values32 (step32 (- 100) 0 1 1 3 2))) 0 0 = Fin 0
   \<and> from_importance_weights32 (step32 (- 100) 0 1 1 3 2) None None
       = Inr \<lparr> vs32 = [[NaN]], pg_advantages32 = [[NaN]] \<rparr>"
  by (simp add: body32_defs step32_def round32_small round32_exp_100 valid_input32_def
      has_shape32_def time_steps32_def batch_size32_def td32_def next32_def)

text \<open>
  Claim C10, amended. On a valid input with finite elements, with thresholds the clip
  accepts, if every residual \<open>rewards[t] + discounts[t] * values_t_plus_1[t] - values[t]\<close>
  is exactly zero and every clipped ratio (at \<open>clip_rho_threshold\<close> and at
  \<open>clip_pg_rho_threshold\<close>) is finite, the function returns \<open>vs\<close> equal to \<open>values\<close>
  and \<open>pg_advantages\<close> zero everywhere.
\<close>

theorem fixed_point_finite_ratios:
  assumes "valid_input32 I" and "finite_inputs32 I"
    and "threshold_ok c1" and "threshold_ok c2"
    and "\<forall>t<time_steps32 I. \<forall>b<batch_size32 I. td32 I (rows32 (values32 I)) t b = Fin 0"
    and "\<forall>t<time_steps32 I. \<forall>b<batch_size32 I.
           is_fin (clipped32 c1 (rho32 I t b)) \<and> is_fin (clipped32 c2 (rho32 I t b))"
  shows "from_importance_weights32 I c1 c2
           = Inr \<lparr> vs32 = rows32 (values32 I),
                   pg_advantages32 = replicate (time_steps32 I) (replicate (batch_size32 I) (Fin 0)) \<rparr>"
proof -
  let ?T = "time_steps32 I" and ?B = "batch_size32 I"
  have fin1: "\<forall>t<?T. \<forall>b<?B. is_fin (clipped32 c1 (rho32 I t b))"
    using assms(6) by blast
  have "vs_entries I c1 = tabf ?T ?B (\<lambda>t b. rows32 (values32 I) ! t ! b)"
    unfolding vs_entries_def
  proof (rule tabf_cong)
    fix t b assume t: "t < ?T" and b: "b < ?B"
    obtain a where a: "rows32 (values32 I) ! t ! b = Fin a" "round32 a = Fin a"
      using entry32 [of _ _ "values32 I" t b] assms(1,2) t b
      by (auto simp: valid_input32_def finite_inputs32_def)
    show "fadd (acc32 I c1 t b) (rows32 (values32 I) ! t ! b) = rows32 (values32 I) ! t ! b"
      by (simp add: acc32_fixed_point [OF assms(1,2,5) fin1 b] a)
  qed
  then have vs: "vs_entries I c1 = rows32 (values32 I)"
    by (simp only: values_rows32 [OF assms(1), symmetric])
  have "tabf ?T ?B (\<lambda>t b. fmul (clipped32 c2 (rho32 I t b)) (td32 I (rows32 (values32 I)) t b))
          = tabf ?T ?B (\<lambda>t b. Fin 0)"
  proof (rule tabf_cong)
    fix t b assume t: "t < ?T" and b: "b < ?B"
    obtain k where k: "clipped32 c2 (rho32 I t b) = Fin k"
      using assms(6) t b by (metis is_fin.elims(2))
    show "fmul (clipped32 c2 (rho32 I t b)) (td32 I (rows32 (values32 I)) t b) = Fin 0"
      using assms(5) t b by (simp add: k round32_zero)
  qed
  then have pg: "tabf ?T ?B (\<lambda>t b. fmul (clipped32 c2 (rho32 I t b)) (td32 I (rows32 (values32 I)) t b))
          = replicate ?T (replicate ?B (Fin 0))"
    by (simp add: tabf_def map_replicate_const)
  show ?thesis
    by (simp add: returns32_on_valid [OF assms(1,3,4)] vs pg)
qed

text \<open>
  Two steps at a fixed point whose ratio at step 0 overflows; with both thresholds \<open>1\<close>
  the clipped ratios are finite and the result is \<open>vs = values\<close>, \<open>pg_advantages = 0\<close>.
\<close>

theorem fixed_point_finite_ratios_witness:
  "valid_input32 fixed_point_two \<and> finite_inputs32 fixed_point_two
   \<and> threshold_ok (Some (Fin 1))
   \<and> rho32 fixed_point_two 0 0 = PInf
   \<and> td32 fixed_point_two (rows32 (values32 fixed_point_two)) 0 0 = Fin 0
   \<and> td32 fixed_point_two (rows32 (values32 fixed_point_two)) 1 0 = Fin 0
   \<and> from_importance_weights32 fixed_point_two (Some (Fin 1)) (Some (Fin 1))
       = Inr \<lparr> vs32 = [[Fin 3], [Fin 2]], pg_advantages32 = [[Fin 0], [Fin 0]] \<rparr>"
proof -
  let ?I = "fixed_point_two"
  have v: "valid_input32 ?I"
    by (simp add: valid_input32_def has_shape32_def time_steps32_def batch_size32_def
        fixed_point_two_def)
  have f: "finite_inputs32 ?I"
    by (simp add: finite_inputs32_def finite_tensor_def fixed_point_two_def finite32_small)
  have sz: "time_steps32 ?I = 2" "batch_size32 ?I = 1"
    by (simp_all add: time_steps32_def batch_size32_def fixed_point_two_def)
  have rho: "rho32 ?I 0 0 = PInf" "rho32 ?I (Suc 0) 0 = Fin 1"
    by (simp_all add: rho32_def fixed_point_two_def fsub_def round32_small round32_exp_100)
  have td: "td32 ?I (rows32 (values32 ?I)) 0 0 = Fin 0" "td32 ?I (rows32 (values32 ?I)) (Suc 0) 0 = Fin 0"
    by (simp_all add: td32_def next32_def sz) (simp_all add: fixed_point_two_def fsub_def round32_small)
  have res: "\<forall>t<time_steps32 ?I. \<forall>b<batch_size32 ?I. td32 ?I (rows32 (values32 ?I)) t b = Fin 0"
    using td by (simp add: sz numeral_2_eq_2 less_Suc_eq)
  have fin: "\<forall>t<time_steps32 ?I. \<forall>b<batch_size32 ?I.
               is_fin (clipped32 (Some (Fin 1)) (rho32 ?I t b))
               \<and> is_fin (clipped32 (Some (Fin 1)) (rho32 ?I t b))"
    using rho by (simp add: sz numeral_2_eq_2 less_Suc_eq clipped32_def clip_elem_def lowest32_def)
  from fixed_point_finite_ratios [OF v f threshold_ok_one threshold_ok_one res fin]
  have "from_importance_weights32 ?I (Some (Fin 1)) (Some (Fin 1))
       = Inr \<lparr> vs32 = [[Fin 3], [Fin 2]], pg_advantages32 = [[Fin 0], [Fin 0]] \<rparr>"
    by (simp add: sz numeral_2_eq_2) (simp add: fixed_point_two_def)
  with v f threshold_ok_one rho(1) td show ?thesis by simp
qed

end
